theory Spec2Isabelle
  imports Main "HOL-Library.Word"
begin

section \<open>OpenF: the 24-bit BMP codec of \<^verbatim>\<open>openf.h\<close>\<close>

text \<open>
  This theory embeds the BMP part of \<^verbatim>\<open>src/openf.h\<close> (\<^verbatim>\<open>openf_load_bmp\<close>,
  \<^verbatim>\<open>openf_save_bmp\<close> and the structures they use) and proves properties of it.

  Conventions of the embedding:
  \<^item> The target is a little-endian LP64 machine: \<^verbatim>\<open>unsigned int\<close> and \<^verbatim>\<open>int\<close> have
    32 bits, \<^verbatim>\<open>unsigned short\<close> 16, \<^verbatim>\<open>size_t\<close> and \<^verbatim>\<open>long\<close> 64. The packed header
    structures are read and written through \<^verbatim>\<open>fread\<close>/\<^verbatim>\<open>fwrite\<close> on their memory, so
    every field is little-endian in the file.
  \<^item> Header fields are machine words. Loop counters, sizes and indices are natural
    numbers; every \<^verbatim>\<open>unsigned int\<close> operation that can exceed 32 bits is written
    with its wrap-around (\<open>add32\<close>, \<open>mul32\<close>). Signed negation wraps as the machine
    instruction does.
  \<^item> The file system is a finite map from paths to byte contents. \<^verbatim>\<open>fopen\<close> for
    reading fails exactly on a missing path; \<^verbatim>\<open>fopen\<close> for writing, \<^verbatim>\<open>malloc\<close>,
    \<^verbatim>\<open>fseek\<close>, \<^verbatim>\<open>fwrite\<close> and \<^verbatim>\<open>fclose\<close> succeed, so the branches of the source that
    return \<^verbatim>\<open>OPEN_FAILED\<close>, \<^verbatim>\<open>MEM_ALLOC\<close>, \<^verbatim>\<open>SEEK_FAILED\<close>, \<^verbatim>\<open>WRITE_FAILED\<close> and
    \<^verbatim>\<open>CLOSE_FAILED\<close> are not reachable in the model. The out-parameter of
    \<^verbatim>\<open>openf_load_bmp\<close> is the returned image (the caller passes a valid pointer).
  \<^item> A NULL pointer is \<open>None\<close>. A buffer is the list of its bytes; an access outside
    a buffer is undefined behaviour in C, and the model then returns \<open>None\<close> as
    the outcome of the whole call. Memory obtained from \<^verbatim>\<open>malloc\<close> holds
    indeterminate bytes (\<open>None\<close>) until written; \<^verbatim>\<open>malloc\<close> of size 0 returns a
    buffer of no bytes. The decoder returns its buffer read bytewise with \<open>the\<close>;
    lemma \<open>load_bmp_decoded\<close> shows that every byte of a returned buffer was written.
\<close>

subsection \<open>Bytes, words and little-endian fields\<close>

type_synonym byte = "8 word"

definition add32 :: "nat \<Rightarrow> nat \<Rightarrow> nat" where
  "add32 a b = (a + b) mod 4294967296"

definition mul32 :: "nat \<Rightarrow> nat \<Rightarrow> nat" where
  "mul32 a b = (a * b) mod 4294967296"

definition put16 :: "16 word \<Rightarrow> byte list" where
  "put16 v = [word_of_nat (unat v mod 256), word_of_nat (unat v div 256)]"

definition put32 :: "32 word \<Rightarrow> byte list" where
  "put32 v = [word_of_nat (unat v mod 256), word_of_nat (unat v div 256 mod 256),
              word_of_nat (unat v div 65536 mod 256), word_of_nat (unat v div 16777216)]"

definition get16 :: "byte list \<Rightarrow> nat \<Rightarrow> 16 word" where
  "get16 bs i = word_of_nat (unat (bs ! i) + 256 * unat (bs ! (i + 1)))"

definition get32 :: "byte list \<Rightarrow> nat \<Rightarrow> 32 word" where
  "get32 bs i = word_of_nat (unat (bs ! i) + 256 * unat (bs ! (i + 1))
                   + 65536 * unat (bs ! (i + 2)) + 16777216 * unat (bs ! (i + 3)))"

subsection \<open>Error codes and structures\<close>

datatype OpenF_Error =
    OPENF_OK
  | OPENF_ERR_NULL_ARG
  | OPENF_ERR_OPEN_FAILED
  | OPENF_ERR_SEEK_FAILED
  | OPENF_ERR_READ_FAILED
  | OPENF_ERR_WRITE_FAILED
  | OPENF_ERR_MEM_ALLOC
  | OPENF_ERR_INVALID_FORMAT
  | OPENF_ERR_UNSUPPORTED
  | OPENF_ERR_CLOSE_FAILED
  | OPENF_ERR_FILE_EXISTS
  | OPENF_ERR_FILE_NOT_FOUND
  | OPENF_ERR_GENERAL_FAILURE

record OpenF_BMPFileHeader =
  bfType :: "16 word"
  bfSize :: "32 word"
  bfReserved1 :: "16 word"
  bfReserved2 :: "16 word"
  bfOffBits :: "32 word"

record OpenF_BMPInfoHeader =
  biSize :: "32 word"
  biWidth :: "32 word"
  biHeight :: "32 word"
  biPlanes :: "16 word"
  biBitCount :: "16 word"
  biCompression :: "32 word"
  biSizeImage :: "32 word"
  biXPelsPerMeter :: "32 word"
  biYPelsPerMeter :: "32 word"
  biClrUsed :: "32 word"
  biClrImportant :: "32 word"

record OpenF_Image =
  width :: "32 word"
  height :: "32 word"
  pixels :: "byte list option"

text \<open>The packed structures as the 14 and 40 bytes that \<^verbatim>\<open>fwrite\<close> emits and
  \<^verbatim>\<open>fread\<close> fills.\<close>

definition write_file_header :: "OpenF_BMPFileHeader \<Rightarrow> byte list" where
  "write_file_header fh =
     put16 (bfType fh) @ put32 (bfSize fh) @ put16 (bfReserved1 fh)
     @ put16 (bfReserved2 fh) @ put32 (bfOffBits fh)"

definition write_info_header :: "OpenF_BMPInfoHeader \<Rightarrow> byte list" where
  "write_info_header ih =
     put32 (biSize ih) @ put32 (biWidth ih) @ put32 (biHeight ih)
     @ put16 (biPlanes ih) @ put16 (biBitCount ih) @ put32 (biCompression ih)
     @ put32 (biSizeImage ih) @ put32 (biXPelsPerMeter ih) @ put32 (biYPelsPerMeter ih)
     @ put32 (biClrUsed ih) @ put32 (biClrImportant ih)"

definition read_file_header :: "byte list \<Rightarrow> OpenF_BMPFileHeader" where
  "read_file_header bs =
     \<lparr>bfType = get16 bs 0, bfSize = get32 bs 2, bfReserved1 = get16 bs 6,
      bfReserved2 = get16 bs 8, bfOffBits = get32 bs 10\<rparr>"

definition read_info_header :: "byte list \<Rightarrow> OpenF_BMPInfoHeader" where
  "read_info_header bs =
     \<lparr>biSize = get32 bs 0, biWidth = get32 bs 4, biHeight = get32 bs 8,
      biPlanes = get16 bs 12, biBitCount = get16 bs 14, biCompression = get32 bs 16,
      biSizeImage = get32 bs 20, biXPelsPerMeter = get32 bs 24,
      biYPelsPerMeter = get32 bs 28, biClrUsed = get32 bs 32,
      biClrImportant = get32 bs 36\<rparr>"

subsection \<open>Files and streams\<close>

type_synonym filesystem = "string \<rightharpoonup> byte list"

text \<open>An open stream: the content of the file and the position of the next read.\<close>

type_synonym stream = "byte list \<times> nat"

text \<open>\<^verbatim>\<open>fread\<close> of \<open>n\<close> bytes returns the bytes it could read (fewer than \<open>n\<close> at
  the end of the file) and advances the position by their number.\<close>

definition fread :: "nat \<Rightarrow> stream \<Rightarrow> byte list \<times> stream" where
  "fread n f =
     (let got = take n (drop (snd f) (fst f))
      in (got, (fst f, snd f + length got)))"

definition fseek :: "nat \<Rightarrow> stream \<Rightarrow> stream" where
  "fseek off f = (fst f, off)"

subsection \<open>The decoder \<^verbatim>\<open>openf_load_bmp\<close>\<close>

text \<open>The row stride of both functions: \<^verbatim>\<open>((width * 3 + 3) / 4) * 4\<close>, computed in
  \<^verbatim>\<open>unsigned int\<close> and then widened to \<^verbatim>\<open>size_t\<close>.\<close>

definition row_size :: "nat \<Rightarrow> nat" where
  "row_size w = mul32 (add32 (mul32 w 3) 3 div 4) 4"

text \<open>The loop over \<open>x\<close> of the decoder (source lines 428 to 435). All indices are
  \<^verbatim>\<open>unsigned int\<close>.\<close>

function load_pixels ::
  "nat \<Rightarrow> nat \<Rightarrow> byte list \<Rightarrow> byte option list \<Rightarrow> nat \<Rightarrow> byte option list option" where
  "load_pixels w target_y row_data px x =
     (if x < w then
        (let dst_idx = mul32 (add32 (mul32 target_y w) x) 3;
             src_idx = mul32 x 3
         in if add32 src_idx 0 < length row_data \<and> add32 src_idx 1 < length row_data
               \<and> add32 src_idx 2 < length row_data
               \<and> add32 dst_idx 0 < length px \<and> add32 dst_idx 1 < length px
               \<and> add32 dst_idx 2 < length px
            then load_pixels w target_y row_data
                   (px[add32 dst_idx 0 := Some (row_data ! add32 src_idx 2),
                       add32 dst_idx 1 := Some (row_data ! add32 src_idx 1),
                       add32 dst_idx 2 := Some (row_data ! add32 src_idx 0)])
                   (x + 1)
            else None)
      else Some px)"
  by pat_completeness auto
termination
  by (relation "measure (\<lambda>(w, target_y, row_data, px, x). w - x)") auto

text \<open>The loop over \<open>y\<close> of the decoder (source lines 420 to 436).\<close>

function load_rows ::
  "nat \<Rightarrow> nat \<Rightarrow> nat \<Rightarrow> bool \<Rightarrow> stream \<Rightarrow> byte option list \<Rightarrow> nat
     \<Rightarrow> (OpenF_Error + byte option list) option" where
  "load_rows w h rs top_down f px y =
     (if y < h then
        (case fread rs f of (row_data, f') \<Rightarrow>
           if length row_data \<noteq> rs then Some (Inl OPENF_ERR_READ_FAILED)
           else (let target_y = (if top_down then y else h - 1 - y)
                 in case load_pixels w target_y row_data px 0 of
                      None \<Rightarrow> None
                    | Some px' \<Rightarrow> load_rows w h rs top_down f' px' (y + 1)))
      else Some (Inr px))"
  by pat_completeness auto
termination
  by (relation "measure (\<lambda>(w, h, rs, top_down, f, px, y). h - y)") auto

definition openf_load_bmp ::
  "filesystem \<Rightarrow> string option \<Rightarrow> (OpenF_Error + OpenF_Image) option" where
  "openf_load_bmp fs path =
     (case path of
        None \<Rightarrow> Some (Inl OPENF_ERR_NULL_ARG)
      | Some p \<Rightarrow>
     (case fs p of
        None \<Rightarrow> Some (Inl OPENF_ERR_FILE_NOT_FOUND)
      | Some content \<Rightarrow>
     (case fread 14 (content, 0) of (fh_bytes, f1) \<Rightarrow>
      if length fh_bytes \<noteq> 14 then Some (Inl OPENF_ERR_READ_FAILED)
      else let file_header = read_file_header fh_bytes in
      if bfType file_header \<noteq> 0x4D42 then Some (Inl OPENF_ERR_INVALID_FORMAT)
      else
     (case fread 40 f1 of (ih_bytes, f2) \<Rightarrow>
      if length ih_bytes \<noteq> 40 then Some (Inl OPENF_ERR_READ_FAILED)
      else let info_header = read_info_header ih_bytes in
      if biBitCount info_header \<noteq> 24 \<or> biCompression info_header \<noteq> 0
      then Some (Inl OPENF_ERR_UNSUPPORTED)
      else if sint (biWidth info_header) \<le> 0 \<or> biHeight info_header = 0
      then Some (Inl OPENF_ERR_INVALID_FORMAT)
      else
        let w = unat (biWidth info_header);
            h = unat (if sint (biHeight info_header) < 0 then - biHeight info_header
                      else biHeight info_header);
            rs = row_size w;
            px = replicate (mul32 (mul32 w h) 3) None;
            f3 = fseek (unat (bfOffBits file_header)) f2;
            top_down = (sint (biHeight info_header) < 0)
        in (case load_rows w h rs top_down f3 px 0 of
              None \<Rightarrow> None
            | Some (Inl e) \<Rightarrow> Some (Inl e)
            | Some (Inr px') \<Rightarrow>
                Some (Inr \<lparr>width = word_of_nat w, height = word_of_nat h,
                           pixels = Some (map the px')\<rparr>))))))"

subsection \<open>The encoder \<^verbatim>\<open>openf_save_bmp\<close>\<close>

text \<open>The loop over \<open>x\<close> of the encoder (source lines 506 to 513). Here \<^verbatim>\<open>dst_idx\<close>
  and \<^verbatim>\<open>src_idx\<close> are \<^verbatim>\<open>size_t\<close>, initialised from \<^verbatim>\<open>unsigned int\<close> expressions.\<close>

function save_pixels ::
  "nat \<Rightarrow> nat \<Rightarrow> byte list \<Rightarrow> byte list \<Rightarrow> nat \<Rightarrow> byte list option" where
  "save_pixels w src_y px row_data x =
     (if x < w then
        (let dst_idx = mul32 x 3;
             src_idx = mul32 (add32 (mul32 src_y w) x) 3
         in if dst_idx + 2 < length row_data \<and> src_idx + 2 < length px
            then save_pixels w src_y px
                   (row_data[dst_idx + 0 := px ! (src_idx + 2),
                             dst_idx + 1 := px ! (src_idx + 1),
                             dst_idx + 2 := px ! (src_idx + 0)])
                   (x + 1)
            else None)
      else Some row_data)"
  by pat_completeness auto
termination
  by (relation "measure (\<lambda>(w, src_y, px, row_data, x). w - x)") auto

text \<open>The loop over \<open>y\<close> of the encoder (source lines 503 to 519); \<open>out\<close> is what
  has been written to the file so far.\<close>

function save_rows ::
  "nat \<Rightarrow> nat \<Rightarrow> nat \<Rightarrow> byte list \<Rightarrow> byte list \<Rightarrow> nat \<Rightarrow> byte list option" where
  "save_rows w h rs px out y =
     (if y < h then
        (let row_data = replicate rs 0;
             src_y = h - 1 - y
         in case save_pixels w src_y px row_data 0 of
              None \<Rightarrow> None
            | Some row_data' \<Rightarrow> save_rows w h rs px (out @ row_data') (y + 1))
      else Some out)"
  by pat_completeness auto
termination
  by (relation "measure (\<lambda>(w, h, rs, px, out, y). h - y)") auto

text \<open>The headers the encoder synthesises (source lines 471 to 485).\<close>

definition save_file_header :: "nat \<Rightarrow> nat \<Rightarrow> OpenF_BMPFileHeader" where
  "save_file_header w h =
     \<lparr>bfType = 0x4D42, bfSize = word_of_nat (14 + 40 + row_size w * h),
      bfReserved1 = 0, bfReserved2 = 0, bfOffBits = 14 + 40\<rparr>"

definition save_info_header :: "nat \<Rightarrow> nat \<Rightarrow> OpenF_BMPInfoHeader" where
  "save_info_header w h =
     \<lparr>biSize = 40, biWidth = word_of_nat w, biHeight = word_of_nat h, biPlanes = 1,
      biBitCount = 24, biCompression = 0, biSizeImage = word_of_nat (row_size w * h),
      biXPelsPerMeter = 0, biYPelsPerMeter = 0, biClrUsed = 0, biClrImportant = 0\<rparr>"

definition openf_save_bmp ::
  "filesystem \<Rightarrow> string option \<Rightarrow> OpenF_Image option \<Rightarrow> (OpenF_Error \<times> filesystem) option" where
  "openf_save_bmp fs path image_arg =
     (case (path, image_arg) of
        (Some p, Some img) \<Rightarrow>
          (case pixels img of
             None \<Rightarrow> Some (OPENF_ERR_NULL_ARG, fs)
           | Some px \<Rightarrow>
               let w = unat (width img);
                   h = unat (height img);
                   rs = row_size w;
                   out = write_file_header (save_file_header w h)
                         @ write_info_header (save_info_header w h)
               in (case save_rows w h rs px out 0 of
                     None \<Rightarrow> None
                   | Some out' \<Rightarrow> Some (OPENF_OK, fs(p \<mapsto> out'))))
      | _ \<Rightarrow> Some (OPENF_ERR_NULL_ARG, fs))"

subsection \<open>Notions used to state the properties\<close>

text \<open>The two headers as the decoder reads them from the start of a file: the first
  14 bytes and the 40 bytes after them.\<close>

definition file_header_of :: "byte list \<Rightarrow> OpenF_BMPFileHeader" where
  "file_header_of content = read_file_header (take 14 content)"

definition info_header_of :: "byte list \<Rightarrow> OpenF_BMPInfoHeader" where
  "info_header_of content = read_info_header (take 40 (drop 14 content))"

text \<open>The height magnitude the decoder derives from the stored height, and the
  canonical row that receives the \<open>i\<close>-th stored row.\<close>

definition stored_height :: "OpenF_BMPInfoHeader \<Rightarrow> nat" where
  "stored_height ih = unat (if sint (biHeight ih) < 0 then - biHeight ih else biHeight ih)"

definition target_row :: "OpenF_BMPInfoHeader \<Rightarrow> nat \<Rightarrow> nat" where
  "target_row ih i = (if sint (biHeight ih) < 0 then i else stored_height ih - 1 - i)"

text \<open>A file passes every header check of the decoder: both headers are present, the
  signature is \<^verbatim>\<open>BM\<close>, the pixel format is 24-bit uncompressed, the width is positive
  and the height is not zero.\<close>

definition accepted_headers :: "byte list \<Rightarrow> bool" where
  "accepted_headers content \<longleftrightarrow>
     54 \<le> length content \<and> bfType (file_header_of content) = 0x4D42
     \<and> biBitCount (info_header_of content) = 24 \<and> biCompression (info_header_of content) = 0
     \<and> 0 < sint (biWidth (info_header_of content)) \<and> biHeight (info_header_of content) \<noteq> 0"

text \<open>The 54 header bytes the encoder writes for an image of the given dimensions.\<close>

definition save_headers :: "nat \<Rightarrow> nat \<Rightarrow> byte list" where
  "save_headers w h =
     write_file_header (save_file_header w h) @ write_info_header (save_info_header w h)"

text \<open>The inputs on which the decoder succeeds (lemma \<open>load_bmp_succeeds_iff\<close> below):
  the headers are accepted, the row stride and the size of the pixel buffer, which the
  decoder computes in \<^verbatim>\<open>unsigned int\<close>, do not wrap around, and the file holds every
  row from the declared offset on.\<close>

definition decodable :: "byte list \<Rightarrow> bool" where
  "decodable content \<longleftrightarrow>
     accepted_headers content
     \<and> 3 * unat (biWidth (info_header_of content)) + 3 < 4294967296
     \<and> 3 * (stored_height (info_header_of content) * unat (biWidth (info_header_of content)))
           < 4294967296
     \<and> unat (bfOffBits (file_header_of content))
         + stored_height (info_header_of content) * row_size (unat (biWidth (info_header_of content)))
           \<le> length content"

text \<open>A file laid out as two headers followed by further bytes, and headers with the
  values that the encoder writes in every field the examples do not vary.\<close>

definition bmp_file :: "OpenF_BMPFileHeader \<Rightarrow> OpenF_BMPInfoHeader \<Rightarrow> byte list \<Rightarrow> byte list" where
  "bmp_file fh ih rest = write_file_header fh @ write_info_header ih @ rest"

definition std_file_header :: "32 word \<Rightarrow> OpenF_BMPFileHeader" where
  "std_file_header off =
     \<lparr>bfType = 0x4D42, bfSize = 0, bfReserved1 = 0, bfReserved2 = 0, bfOffBits = off\<rparr>"

definition std_info_header :: "32 word \<Rightarrow> 32 word \<Rightarrow> OpenF_BMPInfoHeader" where
  "std_info_header w h =
     \<lparr>biSize = 40, biWidth = w, biHeight = h, biPlanes = 1, biBitCount = 24,
      biCompression = 0, biSizeImage = 0, biXPelsPerMeter = 0, biYPelsPerMeter = 0,
      biClrUsed = 0, biClrImportant = 0\<rparr>"

section \<open>Properties\<close>

text \<open>The recursive equations of the four loops are unfolded by hand, one iteration at
  a time.\<close>

declare load_pixels.simps [simp del] load_rows.simps [simp del]
  save_pixels.simps [simp del] save_rows.simps [simp del]

subsection \<open>Little-endian fields and headers\<close>

lemma length_put16 [simp]: "length (put16 v) = 2"
  by (simp add: put16_def)

lemma length_put32 [simp]: "length (put32 v) = 4"
  by (simp add: put32_def)

lemma length_write_file_header [simp]: "length (write_file_header fh) = 14"
  by (simp add: write_file_header_def)

lemma length_write_info_header [simp]: "length (write_info_header ih) = 40"
  by (simp add: write_info_header_def)

lemma unat_byte_of_nat: "n < 256 \<Longrightarrow> unat (word_of_nat n :: byte) = n"
  by (simp add: unat_of_nat)

lemma bytes_of_nat16:
  fixes n :: nat
  shows "n mod 256 + 256 * (n div 256) = n"
  by simp

lemma bytes_of_nat32:
  fixes n :: nat
  shows "n mod 256 + 256 * (n div 256 mod 256) + 65536 * (n div 65536 mod 256)
          + 16777216 * (n div 16777216) = n"
proof -
  define a where "a = n div 256"
  define b where "b = a div 256"
  define c where "c = b div 256"
  have b: "n div 65536 = b"
    unfolding b_def a_def by (simp add: div_mult2_eq [symmetric])
  have c: "n div 16777216 = c"
    unfolding c_def b_def a_def by (simp add: div_mult2_eq [symmetric])
  have 1: "n = n mod 256 + 256 * a" unfolding a_def by simp
  have 2: "a = a mod 256 + 256 * b" unfolding b_def by simp
  have 3: "b = b mod 256 + 256 * c" unfolding c_def by simp
  have "n mod 256 + 256 * (a mod 256) + 65536 * (b mod 256) + 16777216 * c = n"
    using 1 2 3 by linarith
  then show ?thesis
    using b c a_def by simp
qed

lemma get16_put16: "get16 (xs @ put16 v @ ys) (length xs) = v"
proof -
  have "unat v < 65536" using unsigned_less [of v, where ?'a = nat] by simp
  then have "unat v div 256 < 256" by simp
  then show ?thesis
    by (simp add: get16_def put16_def nth_append unat_byte_of_nat)
qed

lemma get32_put32: "get32 (xs @ put32 v @ ys) (length xs) = v"
proof -
  have "unat v < 4294967296" using unsigned_less [of v, where ?'a = nat] by simp
  then have a: "unat v div 16777216 < 256" by simp
  have n: "(xs @ put32 v @ ys) ! length xs = word_of_nat (unat v mod 256)"
     "(xs @ put32 v @ ys) ! (length xs + 1) = word_of_nat (unat v div 256 mod 256)"
     "(xs @ put32 v @ ys) ! (length xs + 2) = word_of_nat (unat v div 65536 mod 256)"
     "(xs @ put32 v @ ys) ! (length xs + 3) = word_of_nat (unat v div 16777216)"
    by (simp_all add: put32_def nth_append)
  show ?thesis
    unfolding get32_def n
    by (simp only: unat_byte_of_nat a mod_less_divisor zero_less_numeral bytes_of_nat32) simp
qed

lemma get16_skip: "length xs \<le> i \<Longrightarrow> get16 (xs @ bs) i = get16 bs (i - length xs)"
  by (simp add: get16_def nth_append Suc_diff_le)

lemma get32_skip: "length xs \<le> i \<Longrightarrow> get32 (xs @ bs) i = get32 bs (i - length xs)"
  by (simp add: get32_def nth_append Suc_diff_le)

lemma get16_head: "get16 (put16 v @ ys) 0 = v"
  using get16_put16 [of "[]" v ys] by simp

lemma get32_head: "get32 (put32 v @ ys) 0 = v"
  using get32_put32 [of "[]" v ys] by simp

lemmas get_skips =
  get16_skip [where xs = "put16 v" for v, simplified]
  get16_skip [where xs = "put32 v" for v, simplified]
  get32_skip [where xs = "put16 v" for v, simplified]
  get32_skip [where xs = "put32 v" for v, simplified]

lemma read_write_file_header: "read_file_header (write_file_header fh @ rest) = fh"
  by (simp add: read_file_header_def write_file_header_def get_skips get16_head get32_head)

lemma read_write_info_header: "read_info_header (write_info_header ih @ rest) = ih"
  by (simp add: read_info_header_def write_info_header_def get_skips get16_head get32_head)

lemma read_write_file_header' [simp]: "read_file_header (write_file_header fh) = fh"
  using read_write_file_header [of fh "[]"] by simp

lemma read_write_info_header' [simp]: "read_info_header (write_info_header ih) = ih"
  using read_write_info_header [of ih "[]"] by simp

subsection \<open>Arithmetic without wrap-around\<close>

lemma mul32_id: "a * b < 4294967296 \<Longrightarrow> mul32 a b = a * b"
  by (simp add: mul32_def)

lemma add32_id: "a + b < 4294967296 \<Longrightarrow> add32 a b = a + b"
  by (simp add: add32_def)

lemma row_size_id:
  assumes "3 * w + 3 < 4294967296"
  shows "row_size w = (3 * w + 3) div 4 * 4"
proof -
  have "mul32 w 3 = 3 * w" using assms by (simp add: mul32_def)
  moreover have "add32 (3 * w) 3 = 3 * w + 3" using assms by (simp add: add32_def)
  moreover have "mul32 ((3 * w + 3) div 4) 4 = (3 * w + 3) div 4 * 4"
    using assms by (simp add: mul32_def)
  ultimately show ?thesis
    unfolding row_size_def by simp
qed

lemma row_size_ge: "3 * w + 3 < 4294967296 \<Longrightarrow> 3 * w \<le> row_size w"
  by (simp add: row_size_id)

subsection \<open>Signed and unsigned readings of a 32-bit field\<close>

lemma unat32_less: "unat (v :: 32 word) < 4294967296"
  using unsigned_less [of v, where 'a = nat] by simp

lemma sint32_cases:
  fixes v :: "32 word"
  shows "sint v = (if unat v < 2147483648 then int (unat v) else int (unat v) - 4294967296)"
proof -
  define n where "n = unat v"
  have u: "uint v = int n" by (simp add: n_def)
  have n: "n < 4294967296" using unat32_less [of v] by (simp add: n_def)
  have "sint v = (int n + 2147483648) mod 4294967296 - 2147483648"
    using int_word_sint [of "uint v", where 'a = 32] unfolding u by (simp add: n_def)
  also have "\<dots> = (if n < 2147483648 then int n else int n - 4294967296)"
  proof (cases "n < 2147483648")
    case True
    then show ?thesis by simp
  next
    case False
    have "(int n + 2147483648 - 4294967296) mod 4294967296 = int n + 2147483648 - 4294967296"
      using False n by (intro mod_pos_pos_trivial) linarith+
    moreover have "(int n + 2147483648 - 4294967296) mod 4294967296
                     = (int n + 2147483648) mod 4294967296"
      by (rule minus_mod_self2)
    ultimately show ?thesis using False by simp
  qed
  finally show ?thesis unfolding n_def .
qed

lemma sint_neg_iff: "sint (v :: 32 word) < 0 \<longleftrightarrow> 2147483648 \<le> unat v"
proof -
  define n where "n = unat v"
  have "n < 4294967296" using unat32_less [of v] by (simp add: n_def)
  then show ?thesis
    unfolding sint32_cases n_def [symmetric] by auto
qed

lemma sint_pos_iff: "0 < sint (v :: 32 word) \<longleftrightarrow> 0 < unat v \<and> unat v < 2147483648"
proof -
  define n where "n = unat v"
  have "n < 4294967296" using unat32_less [of v] by (simp add: n_def)
  then show ?thesis
    unfolding sint32_cases n_def [symmetric] by auto
qed

lemma unat_neg32:
  fixes v :: "32 word"
  assumes "v \<noteq> 0"
  shows "unat (- v) = 4294967296 - unat v"
proof -
  define a where "a = unat (- v)"
  define n where "n = unat v"
  have n0: "0 < n" using assms by (simp add: n_def unat_gt_0)
  have lt: "a < 4294967296" "n < 4294967296"
    using unat32_less [of v] unat32_less [of "- v"] by (simp_all add: a_def n_def)
  have "unat (- v + v) = (a + n) mod 4294967296"
    unfolding a_def n_def by (subst unat_word_ariths) simp
  then have "(a + n) mod 4294967296 = 0" by simp
  then obtain k where k: "a + n = 4294967296 * k" by auto
  have "k = 1"
  proof -
    have "k \<noteq> 0" using k n0 by auto
    moreover have "k < 2" using k lt by simp
    ultimately show ?thesis by simp
  qed
  with k show ?thesis by (simp add: a_def n_def)
qed

lemma stored_height_abs: "stored_height ih = nat \<bar>sint (biHeight ih)\<bar>"
proof -
  define v where "v = biHeight ih"
  define n where "n = unat v"
  have n: "n < 4294967296" using unat32_less [of v] by (simp add: n_def)
  show ?thesis
  proof (cases "sint v < 0")
    case True
    then have l: "2147483648 \<le> n" by (simp add: sint_neg_iff n_def)
    then have "v \<noteq> 0" by (auto simp: n_def)
    from unat_neg32 [OF this] have "stored_height ih = 4294967296 - n"
      using True by (simp add: stored_height_def v_def n_def)
    moreover have "nat \<bar>sint v\<bar> = 4294967296 - n"
      unfolding sint32_cases n_def [symmetric] using l n by simp
    ultimately show ?thesis by (simp add: v_def)
  next
    case False
    then have l: "n < 2147483648" by (simp add: sint_neg_iff n_def)
    have "stored_height ih = n"
      using False by (simp add: stored_height_def v_def n_def)
    moreover have "nat \<bar>sint v\<bar> = n"
      unfolding sint32_cases n_def [symmetric] using l by simp
    ultimately show ?thesis by (simp add: v_def)
  qed
qed

subsection \<open>Streams and pixel indices\<close>

lemma fread_full:
  "pos + n \<le> length content \<Longrightarrow>
     fread n (content, pos) = (take n (drop pos content), (content, pos + n))"
  by (auto simp: fread_def Let_def min_def)

lemma rows_apart:
  fixes a b w :: nat
  assumes "a < b"
  shows "3 * (a * w + w) \<le> 3 * (b * w)"
proof -
  have "Suc a * w \<le> b * w"
    using assms by (intro mult_le_mono1) simp
  then show ?thesis by simp
qed

lemma pixel_index_bound:
  fixes r x c w h :: nat
  assumes "r < h" "x < w" "c < 3"
  shows "3 * (r * w + x) + c < 3 * (h * w)"
proof -
  have "Suc r * w \<le> h * w"
    using assms(1) by (intro mult_le_mono1) simp
  then show ?thesis using assms(2,3) by simp
qed

lemma pixel_index_split:
  fixes k w h :: nat
  assumes "k < 3 * (h * w)"
  obtains r x c where "r < h" "x < w" "c < 3" "k = 3 * (r * w + x) + c"
proof -
  have wpos: "0 < w" using assms by (cases w) simp_all
  define q where "q = k div 3"
  have q: "q < h * w" using assms by (simp add: q_def less_mult_imp_div_less mult.commute)
  have 1: "q div w < h" using q wpos by (simp add: less_mult_imp_div_less)
  have 2: "q mod w < w" using wpos by simp
  have 3: "k mod 3 < 3" by simp
  have "k = 3 * q + k mod 3" by (simp add: q_def)
  also have "q = q div w * w + q mod w" by simp
  finally have 4: "k = 3 * (q div w * w + q mod w) + k mod 3" .
  from that [OF 1 2 3 4] show thesis .
qed

subsection \<open>The loops of the decoder\<close>

lemma load_pixels_ok:
  assumes "x \<le> w" and "3 * w \<le> length row" and "3 * (ty * w + w) \<le> length px"
    and "3 * (ty * w + w) < 4294967296"
  shows "\<exists>px'. load_pixels w ty row px x = Some px' \<and> length px' = length px
      \<and> (\<forall>x' c. x \<le> x' \<and> x' < w \<and> c < 3
            \<longrightarrow> px' ! (3 * (ty * w + x') + c) = Some (row ! (3 * x' + 2 - c)))
      \<and> (\<forall>i. i < 3 * (ty * w + x) \<or> 3 * (ty * w + w) \<le> i \<longrightarrow> px' ! i = px ! i)"
  using assms(1,3)
proof (induction "w - x" arbitrary: x px)
  case 0
  then have "load_pixels w ty row px x = Some px"
    by (subst load_pixels.simps) simp
  with 0 show ?case
    by auto
next
  case (Suc n)
  note prems = Suc.prems(1) assms(2) Suc.prems(2) assms(4)
  show ?case
  proof -
    have True: "x < w" using Suc.hyps(2) by simp
    define d where "d = 3 * (ty * w + x)"
    define s where "s = 3 * x"
    define px1 where "px1 = px[d := Some (row ! (s + 2)), d + 1 := Some (row ! (s + 1)),
                              d + 2 := Some (row ! s)]"
    have dlt: "d + 2 < 3 * (ty * w + w)" using True by (simp add: d_def)
    have slt: "s + 2 < 3 * w" using True by (simp add: s_def)
    have tw: "ty * w < 4294967296" "ty * w + x < 4294967296" "d < 4294967296"
      "s < 4294967296" "d + 2 < 4294967296" "s + 2 < 4294967296"
      using prems(4) dlt slt True by (simp_all add: d_def s_def)
    have idx: "mul32 (add32 (mul32 ty w) x) 3 = d" "mul32 x 3 = s"
      using tw by (simp_all add: mul32_id add32_id d_def s_def mult.commute)
    have adds: "add32 d 0 = d" "add32 d 1 = d + 1" "add32 d 2 = d + 2"
       "add32 s 0 = s" "add32 s 1 = s + 1" "add32 s 2 = s + 2"
       "add32 d (Suc 0) = d + 1" "add32 s (Suc 0) = s + 1"
      using tw by (simp_all add: add32_id)
    have inb: "s + 2 < length row" "d + 2 < length px"
      using slt dlt prems by simp_all
    have step: "load_pixels w ty row px x = load_pixels w ty row px1 (x + 1)"
      using True inb
      by (simp add: load_pixels.simps [of w ty row px x] Let_def idx adds px1_def)
    have len1: "length px1 = length px" by (simp add: px1_def)
    have "\<exists>px'. load_pixels w ty row px1 (x + 1) = Some px' \<and> length px' = length px1
      \<and> (\<forall>x' c. x + 1 \<le> x' \<and> x' < w \<and> c < 3
            \<longrightarrow> px' ! (3 * (ty * w + x') + c) = Some (row ! (3 * x' + 2 - c)))
      \<and> (\<forall>i. i < 3 * (ty * w + (x + 1)) \<or> 3 * (ty * w + w) \<le> i \<longrightarrow> px' ! i = px1 ! i)"
      using Suc.hyps(2) True prems len1 by (intro Suc.hyps(1)) simp_all
    then obtain px' where r: "load_pixels w ty row px1 (x + 1) = Some px'"
      and l: "length px' = length px1"
      and a: "\<And>x' c. x + 1 \<le> x' \<Longrightarrow> x' < w \<Longrightarrow> c < 3
            \<Longrightarrow> px' ! (3 * (ty * w + x') + c) = Some (row ! (3 * x' + 2 - c))"
      and b: "\<And>i. i < 3 * (ty * w + (x + 1)) \<or> 3 * (ty * w + w) \<le> i \<Longrightarrow> px' ! i = px1 ! i"
      by blast
    have cur: "px' ! (d + c) = Some (row ! (s + 2 - c))" if c3: "c < 3" for c
    proof -
      have "px' ! (d + c) = px1 ! (d + c)"
        using c3 by (intro b) (simp add: d_def)
      also have "\<dots> = Some (row ! (s + 2 - c))"
      proof -
        consider "c = 0" | "c = 1" | "c = 2" using c3 by arith
        then show ?thesis
          using inb by cases (simp_all add: px1_def)
      qed
      finally show ?thesis .
    qed
    have A: "px' ! (3 * (ty * w + x') + c) = Some (row ! (3 * x' + 2 - c))"
      if "x \<le> x'" "x' < w" "c < 3" for x' c
    proof (cases "x' = x")
      case True
      then show ?thesis using cur [OF that(3)] by (simp add: d_def s_def)
    next
      case False
      then show ?thesis using that by (intro a) simp_all
    qed
    have B: "px' ! i = px ! i" if "i < 3 * (ty * w + x) \<or> 3 * (ty * w + w) \<le> i" for i
    proof -
      have "px' ! i = px1 ! i" using that by (intro b) auto
      also have "\<dots> = px ! i"
        using that dlt by (auto simp: px1_def d_def)
      finally show ?thesis .
    qed
    show ?thesis
      using step r l len1 A B by auto
  qed
qed

lemma load_rows_ok:
  fixes td :: bool and h :: nat
  defines "T \<equiv> \<lambda>y. if td then y else h - 1 - y"
  assumes "y \<le> h" and "3 * w \<le> rs" and "3 * (h * w) \<le> length px"
    and "3 * (h * w) < 4294967296" and "pos + (h - y) * rs \<le> length content"
  shows "\<exists>px'. load_rows w h rs td (content, pos) px y = Some (Inr px')
      \<and> length px' = length px
      \<and> (\<forall>y' x c. y \<le> y' \<and> y' < h \<and> x < w \<and> c < 3
            \<longrightarrow> px' ! (3 * (T y' * w + x) + c)
                = Some (content ! (pos + (y' - y) * rs + 3 * x + 2 - c)))
      \<and> (\<forall>i. (\<forall>y'. y \<le> y' \<and> y' < h \<longrightarrow> i < 3 * (T y' * w) \<or> 3 * (T y' * w + w) \<le> i)
            \<longrightarrow> px' ! i = px ! i)"
  using assms(2,4,6)
proof (induction "h - y" arbitrary: y pos px)
  case 0
  then have "load_rows w h rs td (content, pos) px y = Some (Inr px)"
    by (subst load_rows.simps) simp
  with 0 show ?case by auto
next
  case (Suc n)
  have ylt: "y < h" using Suc.hyps(2) by simp
  have Tlt: "T y' < h" if "y' < h" for y'
    using that by (simp add: T_def)
  have Tinj: "T y' \<noteq> T y''" if "y' < h" "y'' < h" "y' \<noteq> y''" for y' y''
    using that by (auto simp: T_def)
  have room: "pos + rs \<le> length content"
  proof -
    have "rs \<le> (h - y) * rs" using ylt by auto
    then show ?thesis using Suc.prems(3) by linarith
  qed
  define row where "row = take rs (drop pos content)"
  have rowlen: "length row = rs" using room by (simp add: row_def)
  have rownth: "row ! j = content ! (pos + j)" if "j < rs" for j
    using that room by (simp add: row_def)
  have rd: "fread rs (content, pos) = (row, (content, pos + rs))"
    using room by (simp add: fread_full row_def)
  have fit: "3 * (T y * w + w) \<le> 3 * (h * w)"
  proof (cases "Suc (T y) = h")
    case True
    then show ?thesis by (metis add.commute mult_Suc order_refl)
  next
    case False
    then have "Suc (T y) < h" using Tlt [OF ylt] by simp
    from rows_apart [OF this, of w] show ?thesis by simp
  qed
  obtain px1 where lp: "load_pixels w (T y) row px 0 = Some px1"
    and len1: "length px1 = length px"
    and a1: "\<And>x c. x < w \<Longrightarrow> c < 3
            \<Longrightarrow> px1 ! (3 * (T y * w + x) + c) = Some (row ! (3 * x + 2 - c))"
    and b1: "\<And>i. i < 3 * (T y * w) \<or> 3 * (T y * w + w) \<le> i \<Longrightarrow> px1 ! i = px ! i"
    using load_pixels_ok [of 0 w row "T y" px] fit Suc.prems(2) assms(3,5) rowlen
    by auto
  have step: "load_rows w h rs td (content, pos) px y
                = load_rows w h rs td (content, pos + rs) px1 (y + 1)"
    using ylt lp rowlen
    by (subst load_rows.simps) (simp add: rd T_def)
  have "pos + rs + (h - (y + 1)) * rs = pos + (h - y) * rs"
  proof -
    have "h - y = Suc (h - (y + 1))" using ylt by simp
    then show ?thesis by (metis add.assoc add.commute mult_Suc)
  qed
  then have room': "pos + rs + (h - (y + 1)) * rs \<le> length content"
    using Suc.prems(3) by simp
  have "\<exists>px'. load_rows w h rs td (content, pos + rs) px1 (y + 1) = Some (Inr px')
      \<and> length px' = length px1
      \<and> (\<forall>y' x c. y + 1 \<le> y' \<and> y' < h \<and> x < w \<and> c < 3
            \<longrightarrow> px' ! (3 * (T y' * w + x) + c)
                = Some (content ! (pos + rs + (y' - (y + 1)) * rs + 3 * x + 2 - c)))
      \<and> (\<forall>i. (\<forall>y'. y + 1 \<le> y' \<and> y' < h \<longrightarrow> i < 3 * (T y' * w) \<or> 3 * (T y' * w + w) \<le> i)
            \<longrightarrow> px' ! i = px1 ! i)"
    using Suc.hyps(2) ylt Suc.prems(2) len1 room' by (intro Suc.hyps(1)) simp_all
  then obtain px' where r: "load_rows w h rs td (content, pos + rs) px1 (y + 1) = Some (Inr px')"
    and l: "length px' = length px1"
    and a: "\<And>y' x c. y + 1 \<le> y' \<Longrightarrow> y' < h \<Longrightarrow> x < w \<Longrightarrow> c < 3
            \<Longrightarrow> px' ! (3 * (T y' * w + x) + c)
                = Some (content ! (pos + rs + (y' - (y + 1)) * rs + 3 * x + 2 - c))"
    and b: "\<And>i. (\<forall>y'. y + 1 \<le> y' \<and> y' < h \<longrightarrow> i < 3 * (T y' * w) \<or> 3 * (T y' * w + w) \<le> i)
            \<Longrightarrow> px' ! i = px1 ! i"
    by blast
  have apart: "i < 3 * (T y' * w) \<or> 3 * (T y' * w + w) \<le> i"
    if ap: "y' < h" "y'' < h" "y' \<noteq> y''" "3 * (T y'' * w) \<le> i" "i < 3 * (T y'' * w + w)"
    for i y' y''
  proof -
    consider "T y' < T y''" | "T y'' < T y'"
      using Tinj [OF ap(1,2,3)] by linarith
    then show ?thesis
    proof cases
      case 1
      from rows_apart [OF this, of w] ap(4) show ?thesis by linarith
    next
      case 2
      from rows_apart [OF this, of w] ap(5) show ?thesis by linarith
    qed
  qed
  have A: "px' ! (3 * (T y' * w + x) + c)
                = Some (content ! (pos + (y' - y) * rs + 3 * x + 2 - c))"
    if that: "y \<le> y'" "y' < h" "x < w" "c < 3" for y' x c
  proof (cases "y' = y")
    case True
    have "px' ! (3 * (T y * w + x) + c) = px1 ! (3 * (T y * w + x) + c)"
    proof (rule b, intro allI impI)
      fix y'' assume "y + 1 \<le> y'' \<and> y'' < h"
      then show "3 * (T y * w + x) + c < 3 * (T y'' * w) \<or> 3 * (T y'' * w + w) \<le> 3 * (T y * w + x) + c"
        using that(3,4) ylt by (intro apart [of y'' y]) simp_all
    qed
    also have "\<dots> = Some (row ! (3 * x + 2 - c))"
      using that by (intro a1)
    also have "row ! (3 * x + 2 - c) = content ! (pos + (3 * x + 2 - c))"
      using that(3,4) assms(3) by (intro rownth) linarith
    finally show ?thesis
      using True that(4) by (simp add: add.assoc)
  next
    case False
    then have ge: "y + 1 \<le> y'" using that(1) by simp
    have "pos + rs + (y' - (y + 1)) * rs = pos + (y' - y) * rs"
    proof -
      have "y' - y = Suc (y' - (y + 1))" using ge by simp
      then show ?thesis by (metis add.assoc add.commute mult_Suc)
    qed
    then have "pos + rs + (y' - (y + 1)) * rs + 3 * x + 2 - c
                 = pos + (y' - y) * rs + 3 * x + 2 - c"
      by presburger
    with a [OF ge that(2,3,4)] show ?thesis by presburger
  qed
  have B: "px' ! i = px ! i"
    if "\<forall>y'. y \<le> y' \<and> y' < h \<longrightarrow> i < 3 * (T y' * w) \<or> 3 * (T y' * w + w) \<le> i" for i
  proof -
    have "px' ! i = px1 ! i" using that by (intro b) auto
    also have "\<dots> = px ! i" using that ylt by (intro b1) auto
    finally show ?thesis .
  qed
  show ?case
    using step r l len1 A B by auto
qed

lemma load_bmp_accepted:
  assumes "fs p = Some content" and "accepted_headers content"
  shows "openf_load_bmp fs (Some p) =
    map_option (map_sum id (\<lambda>px'. \<lparr>width = biWidth (info_header_of content),
                    height = word_of_nat (stored_height (info_header_of content)),
                    pixels = Some (map the px')\<rparr>))
      (load_rows (unat (biWidth (info_header_of content))) (stored_height (info_header_of content))
            (row_size (unat (biWidth (info_header_of content))))
            (sint (biHeight (info_header_of content)) < 0)
            (content, unat (bfOffBits (file_header_of content)))
            (replicate (mul32 (mul32 (unat (biWidth (info_header_of content)))
                         (stored_height (info_header_of content))) 3) None) 0)"
proof -
  have len: "54 \<le> length content" using assms(2) by (simp add: accepted_headers_def)
  have r1: "fread 14 (content, 0) = (take 14 content, (content, 14))"
    using len fread_full [of 0 14 content] by simp
  have r2: "fread 40 (content, 14) = (take 40 (drop 14 content), (content, 54))"
    using len fread_full [of 14 40 content] by simp
  show ?thesis
    using assms len
    by (simp add: openf_load_bmp_def r1 r2 accepted_headers_def file_header_of_def
        info_header_of_def stored_height_def fseek_def Let_def not_le
        split: option.splits sum.splits)
qed

lemma load_bmp_decodes:
  fixes content :: "byte list"
  defines "ih \<equiv> info_header_of content"
  defines "w \<equiv> unat (biWidth ih)" and "h \<equiv> stored_height ih"
  defines "off \<equiv> unat (bfOffBits (file_header_of content))"
  assumes "fs p = Some content" and "accepted_headers content"
    and "3 * w + 3 < 4294967296" and "3 * (h * w) < 4294967296"
    and "off + h * row_size w \<le> length content"
  shows "\<exists>pxs. openf_load_bmp fs (Some p)
            = Some (Inr \<lparr>width = biWidth ih, height = word_of_nat h, pixels = Some pxs\<rparr>)
      \<and> length pxs = 3 * (h * w)
      \<and> (\<forall>i x c. i < h \<and> x < w \<and> c < 3
            \<longrightarrow> pxs ! (3 * (target_row ih i * w + x) + c)
                = content ! (off + i * row_size w + 3 * x + 2 - c))"
proof -
  define T where "T = (\<lambda>y. if sint (biHeight ih) < 0 then y else h - 1 - y)"
  have Tt: "target_row ih i = T i" for i
    by (simp add: T_def target_row_def h_def)
  have Tlt: "T i < h" if "i < h" for i using that by (simp add: T_def)
  define px0 :: "byte option list" where "px0 = replicate (mul32 (mul32 w h) 3) None"
  have "w * h < 4294967296" using assms(8) by (simp add: mult.commute)
  then have "mul32 (mul32 w h) 3 = 3 * (h * w)"
    using assms(8) by (simp add: mul32_id mult.commute)
  then have len0: "length px0 = 3 * (h * w)" by (simp add: px0_def)
  obtain px' where r: "load_rows w h (row_size w) (sint (biHeight ih) < 0) (content, off) px0 0
                         = Some (Inr px')"
    and l: "length px' = length px0"
    and a: "\<And>y x c. y < h \<Longrightarrow> x < w \<Longrightarrow> c < 3
            \<Longrightarrow> px' ! (3 * (T y * w + x) + c)
                = Some (content ! (off + y * row_size w + 3 * x + 2 - c))"
    using load_rows_ok [of 0 h w "row_size w" px0 off content "sint (biHeight ih) < 0"]
      row_size_ge [OF assms(7)] len0 assms(8,9)
    unfolding T_def by auto
  have res: "openf_load_bmp fs (Some p)
      = Some (Inr \<lparr>width = biWidth ih, height = word_of_nat h, pixels = Some (map the px')\<rparr>)"
    using r unfolding load_bmp_accepted [of fs p content, OF assms(5,6)] ih_def [symmetric]
      w_def [symmetric] h_def [symmetric] off_def [symmetric] px0_def [symmetric]
    by simp
  have "map the px' ! (3 * (target_row ih i * w + x) + c)
                = content ! (off + i * row_size w + 3 * x + 2 - c)"
    if th: "i < h" "x < w" "c < 3" for i x c
  proof -
    have "3 * (T i * w + x) + c < length px'"
      using pixel_index_bound [OF Tlt [OF th(1)] th(2,3)] l len0 by simp
    then show ?thesis
      using a [OF th] by (simp add: Tt)
  qed
  then show ?thesis
    using res l len0 by (intro exI [of _ "map the px'"]) simp
qed

subsection \<open>The loops of the encoder\<close>

lemma mul32_le: "mul32 a b \<le> a * b"
  by (simp add: mul32_def)

lemma save_pixels_frame:
  assumes "save_pixels w sy px row x = Some row'"
  shows "length row' = length row \<and> (\<forall>i. 3 * w \<le> i \<longrightarrow> row' ! i = row ! i)"
  using assms
proof (induction "w - x" arbitrary: x row)
  case 0
  then have "save_pixels w sy px row x = Some row"
    by (subst save_pixels.simps) simp
  with 0 show ?case by simp
next
  case (Suc n)
  have xlt: "x < w" using Suc.hyps(2) by simp
  define d where "d = mul32 x 3"
  define s where "s = mul32 (add32 (mul32 sy w) x) 3"
  define row1 where "row1 = row[d + 0 := px ! (s + 2), d + 1 := px ! (s + 1), d + 2 := px ! (s + 0)]"
  have step: "save_pixels w sy px row x
      = (if d + 2 < length row \<and> s + 2 < length px then save_pixels w sy px row1 (x + 1) else None)"
    using xlt by (subst save_pixels.simps) (simp add: Let_def d_def s_def row1_def)
  with Suc.prems have r: "save_pixels w sy px row1 (x + 1) = Some row'"
    by (simp split: if_splits)
  have "n = w - (x + 1)" using Suc.hyps(2) by simp
  from Suc.hyps(1) [OF this r]
  have l: "length row' = length row1" and f: "\<And>i. 3 * w \<le> i \<Longrightarrow> row' ! i = row1 ! i"
    by simp_all
  have "d \<le> x * 3" by (simp add: d_def mul32_le)
  then have dlt: "d + 2 < 3 * w" using xlt by simp
  have "row1 ! i = row ! i" if "3 * w \<le> i" for i
    using that dlt by (simp add: row1_def)
  with l f show ?case by (simp add: row1_def)
qed

lemma save_pixels_ok:
  assumes "x \<le> w" and "3 * w \<le> length row" and "3 * (sy * w + w) \<le> length px"
    and "3 * (sy * w + w) < 4294967296"
  shows "\<exists>row'. save_pixels w sy px row x = Some row' \<and> length row' = length row
      \<and> (\<forall>x' c. x \<le> x' \<and> x' < w \<and> c < 3
            \<longrightarrow> row' ! (3 * x' + c) = px ! (3 * (sy * w + x') + 2 - c))
      \<and> (\<forall>i. i < 3 * x \<or> 3 * w \<le> i \<longrightarrow> row' ! i = row ! i)"
  using assms(1,2)
proof (induction "w - x" arbitrary: x row)
  case 0
  then have "save_pixels w sy px row x = Some row"
    by (subst save_pixels.simps) simp
  with 0 show ?case by auto
next
  case (Suc n)
  have xlt: "x < w" using Suc.hyps(2) by simp
  define d where "d = 3 * x"
  define s where "s = 3 * (sy * w + x)"
  define row1 where "row1 = row[d + 0 := px ! (s + 2), d + 1 := px ! (s + 1), d + 2 := px ! (s + 0)]"
  have slt: "s + 2 < 3 * (sy * w + w)" using xlt by (simp add: s_def)
  have dlt: "d + 2 < 3 * w" using xlt by (simp add: d_def)
  have tw: "sy * w < 4294967296" "sy * w + x < 4294967296" "s < 4294967296" "d < 4294967296"
    using assms(4) slt dlt by (simp_all add: d_def s_def)
  have idx: "mul32 (add32 (mul32 sy w) x) 3 = s" "mul32 x 3 = d"
    using tw by (simp_all add: mul32_id add32_id d_def s_def mult.commute)
  have inb: "d + 2 < length row" "s + 2 < length px"
    using slt dlt Suc.prems assms(3) by simp_all
  have step: "save_pixels w sy px row x = save_pixels w sy px row1 (x + 1)"
    using xlt inb by (subst save_pixels.simps) (simp add: Let_def idx row1_def)
  have len1: "length row1 = length row" by (simp add: row1_def)
  have "\<exists>row'. save_pixels w sy px row1 (x + 1) = Some row' \<and> length row' = length row1
      \<and> (\<forall>x' c. x + 1 \<le> x' \<and> x' < w \<and> c < 3
            \<longrightarrow> row' ! (3 * x' + c) = px ! (3 * (sy * w + x') + 2 - c))
      \<and> (\<forall>i. i < 3 * (x + 1) \<or> 3 * w \<le> i \<longrightarrow> row' ! i = row1 ! i)"
    using Suc.hyps(2) xlt Suc.prems len1 by (intro Suc.hyps(1)) simp_all
  then obtain row' where r: "save_pixels w sy px row1 (x + 1) = Some row'"
    and l: "length row' = length row1"
    and a: "\<And>x' c. x + 1 \<le> x' \<Longrightarrow> x' < w \<Longrightarrow> c < 3
            \<Longrightarrow> row' ! (3 * x' + c) = px ! (3 * (sy * w + x') + 2 - c)"
    and b: "\<And>i. i < 3 * (x + 1) \<or> 3 * w \<le> i \<Longrightarrow> row' ! i = row1 ! i"
    by blast
  have cur: "row' ! (d + c) = px ! (s + 2 - c)" if c3: "c < 3" for c
  proof -
    have "row' ! (d + c) = row1 ! (d + c)"
      using c3 by (intro b) (simp add: d_def)
    also have "\<dots> = px ! (s + 2 - c)"
    proof -
      consider "c = 0" | "c = 1" | "c = 2" using c3 by arith
      then show ?thesis
        using inb by cases (simp_all add: row1_def)
    qed
    finally show ?thesis .
  qed
  have A: "row' ! (3 * x' + c) = px ! (3 * (sy * w + x') + 2 - c)"
    if th: "x \<le> x'" "x' < w" "c < 3" for x' c
  proof (cases "x' = x")
    case True
    then show ?thesis using cur [OF th(3)] by (simp add: d_def s_def)
  next
    case False
    then show ?thesis using th by (intro a) simp_all
  qed
  have B: "row' ! i = row ! i" if th: "i < 3 * x \<or> 3 * w \<le> i" for i
  proof -
    have "row' ! i = row1 ! i" using th by (intro b) auto
    also have "\<dots> = row ! i"
      using th dlt by (auto simp: row1_def d_def)
    finally show ?thesis .
  qed
  show ?case
    using step r l len1 A B by auto
qed

lemma nth_rows_Suc:
  "length r = rs \<Longrightarrow> (r @ rows) ! (Suc k * rs + j) = rows ! (k * rs + j)"
  by (simp add: nth_append)

lemma nth_rows_0:
  "length r = rs \<Longrightarrow> j < rs \<Longrightarrow> (r @ rows) ! (0 * rs + j) = r ! j"
  by (simp add: nth_append)

lemma save_rows_frame:
  assumes "save_rows w h rs px out y = Some out'"
  shows "\<exists>rows. out' = out @ rows \<and> length rows = (h - y) * rs
      \<and> (\<forall>k j. k < h - y \<and> 3 * w \<le> j \<and> j < rs \<longrightarrow> rows ! (k * rs + j) = 0)"
  using assms
proof (induction "h - y" arbitrary: y out)
  case 0
  then have "save_rows w h rs px out y = Some out"
    by (subst save_rows.simps) simp
  with 0 show ?case by simp
next
  case (Suc n)
  have ylt: "y < h" using Suc.hyps(2) by simp
  have step: "save_rows w h rs px out y
      = (case save_pixels w (h - 1 - y) px (replicate rs 0) 0 of None \<Rightarrow> None
         | Some row' \<Rightarrow> save_rows w h rs px (out @ row') (y + 1))"
    using ylt by (subst save_rows.simps) (simp add: Let_def)
  with Suc.prems obtain row' where
    sp: "save_pixels w (h - 1 - y) px (replicate rs 0) 0 = Some row'"
    and r: "save_rows w h rs px (out @ row') (y + 1) = Some out'"
    by (auto split: option.splits)
  from save_pixels_frame [OF sp]
  have len: "length row' = rs" and pad: "\<And>j. 3 * w \<le> j \<Longrightarrow> j < rs \<Longrightarrow> row' ! j = 0"
    by simp_all
  have n: "n = h - (y + 1)" using Suc.hyps(2) by simp
  from Suc.hyps(1) [OF n r] obtain rows where
    o: "out' = (out @ row') @ rows" and l: "length rows = (h - (y + 1)) * rs"
    and z: "\<And>k j. k < h - (y + 1) \<Longrightarrow> 3 * w \<le> j \<Longrightarrow> j < rs \<Longrightarrow> rows ! (k * rs + j) = 0"
    by blast
  have hy: "h - y = Suc (h - (y + 1))" using ylt by simp
  have Z: "(row' @ rows) ! (k * rs + j) = 0" if th: "k < h - y" "3 * w \<le> j" "j < rs" for k j
  proof (cases k)
    case 0
    then show ?thesis using nth_rows_0 [OF len th(3)] pad [OF th(2,3)] by simp
  next
    case (Suc k')
    then have "k' < h - (y + 1)" using th(1) hy by simp
    from z [OF this th(2,3)] show ?thesis
      unfolding Suc nth_rows_Suc [OF len] .
  qed
  have "length (row' @ rows) = (h - y) * rs"
    using len l hy by simp
  with o Z show ?case
    by (intro exI [of _ "row' @ rows"]) simp
qed

lemma save_rows_ok:
  assumes "y \<le> h" and "3 * w \<le> rs" and "3 * (h * w) \<le> length px"
    and "3 * (h * w) < 4294967296"
  shows "\<exists>rows. save_rows w h rs px out y = Some (out @ rows) \<and> length rows = (h - y) * rs
      \<and> (\<forall>k x c. k < h - y \<and> x < w \<and> c < 3
            \<longrightarrow> rows ! (k * rs + 3 * x + c) = px ! (3 * ((h - 1 - (y + k)) * w + x) + 2 - c))"
  using assms(1)
proof (induction "h - y" arbitrary: y out)
  case 0
  then have "save_rows w h rs px out y = Some out"
    by (subst save_rows.simps) simp
  with 0 show ?case by simp
next
  case (Suc n)
  have ylt: "y < h" using Suc.hyps(2) by simp
  have fit: "3 * ((h - 1 - y) * w + w) \<le> 3 * (h * w)"
  proof (cases "Suc (h - 1 - y) = h")
    case True
    then show ?thesis by (metis add.commute mult_Suc order_refl)
  next
    case False
    then have "Suc (h - 1 - y) < h" using ylt by simp
    from rows_apart [OF this, of w] show ?thesis by simp
  qed
  obtain row' where sp: "save_pixels w (h - 1 - y) px (replicate rs 0) 0 = Some row'"
    and len: "length row' = rs"
    and a1: "\<And>x c. x < w \<Longrightarrow> c < 3
            \<Longrightarrow> row' ! (3 * x + c) = px ! (3 * ((h - 1 - y) * w + x) + 2 - c)"
    using save_pixels_ok [of 0 w "replicate rs 0" "h - 1 - y" px] fit assms(2,3,4)
    by auto
  have step: "save_rows w h rs px out y = save_rows w h rs px (out @ row') (y + 1)"
    using ylt sp by (subst save_rows.simps) (simp add: Let_def)
  have "\<exists>rows. save_rows w h rs px (out @ row') (y + 1) = Some ((out @ row') @ rows)
      \<and> length rows = (h - (y + 1)) * rs
      \<and> (\<forall>k x c. k < h - (y + 1) \<and> x < w \<and> c < 3
            \<longrightarrow> rows ! (k * rs + 3 * x + c)
                  = px ! (3 * ((h - 1 - (y + 1 + k)) * w + x) + 2 - c))"
    using Suc.hyps(2) ylt by (intro Suc.hyps(1)) simp_all
  then obtain rows where
    r: "save_rows w h rs px (out @ row') (y + 1) = Some ((out @ row') @ rows)"
    and l: "length rows = (h - (y + 1)) * rs"
    and a: "\<And>k x c. k < h - (y + 1) \<Longrightarrow> x < w \<Longrightarrow> c < 3
            \<Longrightarrow> rows ! (k * rs + 3 * x + c)
                  = px ! (3 * ((h - 1 - (y + 1 + k)) * w + x) + 2 - c)"
    by blast
  have hy: "h - y = Suc (h - (y + 1))" using ylt by simp
  have A: "(row' @ rows) ! (k * rs + 3 * x + c) = px ! (3 * ((h - 1 - (y + k)) * w + x) + 2 - c)"
    if th: "k < h - y" "x < w" "c < 3" for k x c
  proof (cases k)
    case 0
    have "3 * x + c < rs" using th(2,3) assms(2) by linarith
    from nth_rows_0 [OF len this] a1 [OF th(2,3)] show ?thesis
      using 0 by (simp add: add.assoc)
  next
    case (Suc k')
    then have "k' < h - (y + 1)" using th(1) hy by simp
    from a [OF this th(2,3)] show ?thesis
      unfolding Suc add.assoc nth_rows_Suc [OF len] by simp
  qed
  have "length (row' @ rows) = (h - y) * rs"
    using len l hy by simp
  with step r A show ?case
    by (intro exI [of _ "row' @ rows"]) simp
qed

lemma length_save_headers [simp]: "length (save_headers w h) = 54"
  by (simp add: save_headers_def)

lemma file_header_of_save [simp]:
  "file_header_of (save_headers w h @ rows) = save_file_header w h"
  by (simp add: file_header_of_def save_headers_def)

lemma info_header_of_save [simp]:
  "info_header_of (save_headers w h @ rows) = save_info_header w h"
  by (simp add: info_header_of_def save_headers_def)

lemma save_bmp_ok:
  fixes img :: OpenF_Image
  defines "w \<equiv> unat (width img)" and "h \<equiv> unat (height img)"
  assumes "pixels img = Some px" and "3 * w + 3 < 4294967296" and "3 * (h * w) < 4294967296"
    and "3 * (h * w) \<le> length px"
  shows "\<exists>rows. openf_save_bmp fs (Some p) (Some img)
                  = Some (OPENF_OK, fs(p \<mapsto> save_headers w h @ rows))
      \<and> length rows = h * row_size w
      \<and> (\<forall>k x c. k < h \<and> x < w \<and> c < 3
            \<longrightarrow> rows ! (k * row_size w + 3 * x + c) = px ! (3 * ((h - 1 - k) * w + x) + 2 - c))"
proof -
  obtain rows where
    r: "save_rows w h (row_size w) px (save_headers w h) 0 = Some (save_headers w h @ rows)"
    and l: "length rows = h * row_size w"
    and a: "\<And>k x c. k < h \<Longrightarrow> x < w \<Longrightarrow> c < 3
            \<Longrightarrow> rows ! (k * row_size w + 3 * x + c) = px ! (3 * ((h - 1 - k) * w + x) + 2 - c)"
    using save_rows_ok [of 0 h w "row_size w" px "save_headers w h"]
      row_size_ge [OF assms(4)] assms(5,6)
    by auto
  have "openf_save_bmp fs (Some p) (Some img) = Some (OPENF_OK, fs(p \<mapsto> save_headers w h @ rows))"
    using r assms(3)
    by (simp add: openf_save_bmp_def Let_def w_def h_def save_headers_def)
  with l a show ?thesis by blast
qed

lemma save_bmp_result:
  fixes img :: OpenF_Image
  defines "w \<equiv> unat (width img)" and "h \<equiv> unat (height img)"
  assumes "openf_save_bmp fs (Some p) (Some img) = Some (OPENF_OK, fs')"
  shows "\<exists>rows. fs' = fs(p \<mapsto> save_headers w h @ rows)
      \<and> length rows = h * row_size w
      \<and> (\<forall>k j. k < h \<and> 3 * w \<le> j \<and> j < row_size w \<longrightarrow> rows ! (k * row_size w + j) = 0)"
proof -
  from assms(3) obtain px out' where px: "pixels img = Some px"
    and sr: "save_rows w h (row_size w) px (save_headers w h) 0 = Some out'"
    and fs': "fs' = fs(p \<mapsto> out')"
    by (auto simp: openf_save_bmp_def Let_def w_def h_def save_headers_def
        split: option.splits)
  from save_rows_frame [OF sr] fs' show ?thesis
    by auto
qed

subsection \<open>The encoder followed by the decoder\<close>

lemma image_eqI:
  "width img = a \<Longrightarrow> height img = b \<Longrightarrow> pixels img = c
    \<Longrightarrow> \<lparr>width = a, height = b, pixels = c\<rparr> = (img :: OpenF_Image)"
  by (cases img) simp

lemma roundtrip_general:
  fixes img :: OpenF_Image
  defines "w \<equiv> unat (width img)" and "h \<equiv> unat (height img)"
  assumes px: "pixels img = Some px" and len: "length px = 3 * (h * w)"
    and w: "0 < w" "w < 2147483648" and h: "0 < h" "h < 2147483648"
    and fit: "3 * w + 3 < 4294967296" "3 * (h * w) < 4294967296"
  shows "\<exists>fs'. openf_save_bmp fs (Some p) (Some img) = Some (OPENF_OK, fs')
           \<and> openf_load_bmp fs' (Some p) = Some (Inr img)"
proof -
  define rs where "rs = row_size w"
  obtain rows where
    sv: "openf_save_bmp fs (Some p) (Some img)
           = Some (OPENF_OK, fs(p \<mapsto> save_headers w h @ rows))"
    and rl: "length rows = h * rs"
    and ra: "\<And>k x c. k < h \<Longrightarrow> x < w \<Longrightarrow> c < 3
            \<Longrightarrow> rows ! (k * rs + 3 * x + c) = px ! (3 * ((h - 1 - k) * w + x) + 2 - c)"
    using save_bmp_ok [of img px fs p] px fit len unfolding w_def h_def rs_def by auto
  define content where "content = save_headers w h @ rows"
  define fs' where "fs' = fs(p \<mapsto> content)"
  have look: "fs' p = Some content" by (simp add: fs'_def)
  have ih: "info_header_of content = save_info_header w h"
    and fh: "file_header_of content = save_file_header w h"
    by (simp_all add: content_def)
  have bw: "biWidth (save_info_header w h) = width img"
    and bh: "biHeight (save_info_header w h) = height img"
    by (simp_all add: save_info_header_def w_def h_def)
  have sw: "0 < sint (width img)" using w by (simp add: sint_pos_iff w_def)
  have sh: "\<not> sint (height img) < 0" using h by (simp add: sint_neg_iff h_def)
  have hn: "height img \<noteq> 0" using h by (auto simp: h_def)
  have acc: "accepted_headers content"
    unfolding accepted_headers_def ih fh bw bh
    using sw hn by (simp add: content_def save_file_header_def save_info_header_def)
  have sth: "stored_height (info_header_of content) = h"
    unfolding ih stored_height_def bh using sh by (simp add: h_def)
  have tr: "target_row (info_header_of content) i = h - 1 - i" for i
    unfolding target_row_def sth unfolding ih bh using sh by simp
  have off: "unat (bfOffBits (file_header_of content)) = 54"
    unfolding fh by (simp add: save_file_header_def)
  have uw: "unat (biWidth (info_header_of content)) = w"
    unfolding ih bw by (simp add: w_def)
  obtain pxs where
    ld: "openf_load_bmp fs' (Some p)
            = Some (Inr \<lparr>width = biWidth (info_header_of content),
                         height = word_of_nat h, pixels = Some pxs\<rparr>)"
    and pl: "length pxs = 3 * (h * w)"
    and pa: "\<And>i x c. i < h \<Longrightarrow> x < w \<Longrightarrow> c < 3
            \<Longrightarrow> pxs ! (3 * ((h - 1 - i) * w + x) + c)
                = content ! (54 + i * rs + 3 * x + 2 - c)"
    using load_bmp_decodes [of fs' p content, OF look acc] fit rl
    unfolding sth uw off tr rs_def [symmetric]
    by (auto simp: content_def)
  have "pxs ! k = px ! k" if k: "k < 3 * (h * w)" for k
  proof -
    from k obtain r x c where r: "r < h" and x: "x < w" and c: "c < 3"
      and keq: "k = 3 * (r * w + x) + c"
      by (rule pixel_index_split)
    define i where "i = h - 1 - r"
    have i: "i < h" and ri: "h - 1 - i = r" using r by (simp_all add: i_def)
    have c2: "2 - c < 3" by simp
    have "3 * w \<le> rs" unfolding rs_def using fit(1) by (rule row_size_ge)
    have "pxs ! k = content ! (54 + i * rs + 3 * x + 2 - c)"
      using pa [OF i x c] unfolding ri keq .
    also have "54 + i * rs + 3 * x + 2 - c = 54 + (i * rs + 3 * x + (2 - c))"
      using c by simp
    also have "content ! (54 + (i * rs + 3 * x + (2 - c))) = rows ! (i * rs + 3 * x + (2 - c))"
      by (simp add: content_def nth_append)
    also have "\<dots> = px ! (3 * ((h - 1 - i) * w + x) + 2 - (2 - c))"
      by (rule ra [OF i x c2])
    also have "3 * ((h - 1 - i) * w + x) + 2 - (2 - c) = k"
      unfolding ri keq using c by simp
    finally show ?thesis .
  qed
  then have "pxs = px"
    using pl len by (intro nth_equalityI) simp_all
  then have "openf_load_bmp fs' (Some p) = Some (Inr img)"
    unfolding ld ih bw using px by (simp add: image_eqI h_def)
  with sv show ?thesis
    unfolding fs'_def content_def by blast
qed

subsection \<open>Rejected inputs\<close>

lemma load_bmp_short_file:
  assumes "fs p = Some content" and "length content < 14"
  shows "openf_load_bmp fs (Some p) = Some (Inl OPENF_ERR_READ_FAILED)"
  using assms by (simp add: openf_load_bmp_def fread_def Let_def)

lemma unat_u16_of_nat: "n < 65536 \<Longrightarrow> unat (word_of_nat n :: 16 word) = n"
  by (simp add: unat_of_nat)

lemma get16_BM:
  "get16 bs 0 = 0x4D42 \<longleftrightarrow> bs ! 0 = 0x42 \<and> bs ! 1 = 0x4D"
proof -
  define a where "a = unat (bs ! 0)"
  define b where "b = unat (bs ! (0 + 1))"
  have lt: "a < 256" "b < 256"
    using unsigned_less [of "bs ! 0", where 'a = nat]
      unsigned_less [of "bs ! (0 + 1)", where 'a = nat]
    by (simp_all add: a_def b_def)
  have g: "get16 bs 0 = word_of_nat (a + 256 * b)"
    unfolding get16_def a_def b_def by (rule refl)
  have "get16 bs 0 = (0x4D42 :: 16 word) \<longleftrightarrow> unat (get16 bs 0) = unat (0x4D42 :: 16 word)"
    by (simp only: word_unat_eq_iff)
  also have "unat (get16 bs 0) = a + 256 * b"
    unfolding g using lt by (intro unat_u16_of_nat) simp
  also have "a + 256 * b = unat (0x4D42 :: 16 word) \<longleftrightarrow> a = 66 \<and> b = 77"
  proof -
    have "a = 66 \<and> b = 77" if e: "a + 256 * b = 19778"
    proof -
      have "(a + 256 * b) mod 256 = a" using lt by simp
      then have "a = 66" unfolding e by simp
      with e show ?thesis by simp
    qed
    then have "a + 256 * b = 19778 \<longleftrightarrow> a = 66 \<and> b = 77"
      by auto
    then show ?thesis by simp
  qed
  also have "a = 66 \<and> b = 77 \<longleftrightarrow> bs ! 0 = 0x42 \<and> bs ! 1 = 0x4D"
    unfolding a_def b_def by (simp add: word_unat_eq_iff)
  finally show ?thesis .
qed

lemma load_bmp_bad_signature:
  assumes "fs p = Some content" and "14 \<le> length content"
    and "bfType (file_header_of content) \<noteq> 0x4D42"
  shows "openf_load_bmp fs (Some p) = Some (Inl OPENF_ERR_INVALID_FORMAT)"
proof -
  have r1: "fread 14 (content, 0) = (take 14 content, (content, 14))"
    using assms(2) fread_full [of 0 14 content] by simp
  show ?thesis
    using assms by (simp add: openf_load_bmp_def r1 file_header_of_def)
qed

lemma signature_bytes:
  "bfType (file_header_of content) = 0x4D42
     \<longleftrightarrow> take 14 content ! 0 = 0x42 \<and> take 14 content ! 1 = 0x4D"
  by (simp add: file_header_of_def read_file_header_def get16_BM)

lemma load_bmp_unsupported:
  assumes "fs p = Some content" and "54 \<le> length content"
    and "bfType (file_header_of content) = 0x4D42"
    and "biBitCount (info_header_of content) \<noteq> 24 \<or> biCompression (info_header_of content) \<noteq> 0"
  shows "openf_load_bmp fs (Some p) = Some (Inl OPENF_ERR_UNSUPPORTED)"
proof -
  have r1: "fread 14 (content, 0) = (take 14 content, (content, 14))"
    using assms(2) fread_full [of 0 14 content] by simp
  have r2: "fread 40 (content, 14) = (take 40 (drop 14 content), (content, 54))"
    using assms(2) fread_full [of 14 40 content] by simp
  show ?thesis
    using assms
    by (simp add: openf_load_bmp_def r1 r2 file_header_of_def info_header_of_def Let_def)
qed

lemma load_bmp_bad_dimensions:
  assumes "fs p = Some content" and "54 \<le> length content"
    and "bfType (file_header_of content) = 0x4D42"
    and "biBitCount (info_header_of content) = 24" and "biCompression (info_header_of content) = 0"
    and "sint (biWidth (info_header_of content)) \<le> 0 \<or> biHeight (info_header_of content) = 0"
  shows "openf_load_bmp fs (Some p) = Some (Inl OPENF_ERR_INVALID_FORMAT)"
proof -
  have r1: "fread 14 (content, 0) = (take 14 content, (content, 14))"
    using assms(2) fread_full [of 0 14 content] by simp
  have r2: "fread 40 (content, 14) = (take 40 (drop 14 content), (content, 54))"
    using assms(2) fread_full [of 14 40 content] by simp
  show ?thesis
    using assms
    by (simp add: openf_load_bmp_def r1 r2 file_header_of_def info_header_of_def Let_def)
qed

lemma load_rows_error:
  assumes "load_rows w h rs td f px y = Some (Inl e)"
  shows "e = OPENF_ERR_READ_FAILED"
  using assms
proof (induction "h - y" arbitrary: y f px)
  case 0
  then show ?case by (subst (asm) load_rows.simps) simp
next
  case (Suc n)
  have ylt: "y < h" using Suc.hyps(2) by simp
  obtain row f' where rd: "fread rs f = (row, f')" by (cases "fread rs f")
  show ?case
  proof (cases "length row \<noteq> rs")
    case True
    with Suc.prems ylt rd show ?thesis
      by (subst (asm) load_rows.simps) simp
  next
    case False
    with Suc.prems ylt rd obtain px1 where
      "load_rows w h rs td f' px1 (y + 1) = Some (Inl e)"
      by (subst (asm) load_rows.simps) (auto simp: Let_def split: option.splits)
    moreover have "n = h - (y + 1)" using Suc.hyps(2) by simp
    ultimately show ?thesis by (rule Suc.hyps(1) [rotated])
  qed
qed

lemma load_bmp_accepted_error:
  assumes "fs p = Some content" and "accepted_headers content"
    and "openf_load_bmp fs (Some p) = Some (Inl e)"
  shows "e = OPENF_ERR_READ_FAILED"
proof -
  have "map_sum id f x = Inl e \<Longrightarrow> x = Inl e" for f :: "'b \<Rightarrow> 'c" and x :: "OpenF_Error + 'b"
    by (cases x) simp_all
  with assms(3) obtain w h rs td f px where "load_rows w h rs td f px 0 = Some (Inl e)"
    unfolding load_bmp_accepted [of fs p content, OF assms(1,2)]
    by (fastforce simp: map_option_case split: option.splits)
  then show ?thesis by (rule load_rows_error)
qed

subsection \<open>Files built from headers\<close>

lemma length_bmp_file [simp]: "length (bmp_file fh ih rest) = 54 + length rest"
  by (simp add: bmp_file_def)

lemma file_header_of_bmp_file [simp]: "file_header_of (bmp_file fh ih rest) = fh"
  by (simp add: bmp_file_def file_header_of_def)

lemma info_header_of_bmp_file [simp]: "info_header_of (bmp_file fh ih rest) = ih"
  by (simp add: bmp_file_def info_header_of_def)

lemma drop_bmp_file [simp]: "drop 54 (bmp_file fh ih rest) = rest"
  by (simp add: bmp_file_def)

lemma nth_bmp_file [simp]: "bmp_file fh ih rest ! (54 + i) = rest ! i"
  by (simp add: bmp_file_def nth_append)

subsection \<open>A successful decoding passed every bounds check\<close>

lemma load_pixels_checks:
  assumes "load_pixels w ty row px x = Some px'"
  shows "length px' = length px
    \<and> (\<forall>x'. x \<le> x' \<and> x' < w \<longrightarrow> add32 (mul32 x' 3) 2 < length row
          \<and> (\<forall>k<3. add32 (mul32 (add32 (mul32 ty w) x') 3) k < length px))"
  using assms
proof (induction "w - x" arbitrary: x px)
  case 0
  then have "load_pixels w ty row px x = Some px"
    by (subst load_pixels.simps) simp
  with 0 show ?case by auto
next
  case (Suc n)
  have xlt: "x < w" using Suc.hyps(2) by simp
  define d where "d = mul32 (add32 (mul32 ty w) x) 3"
  define s where "s = mul32 x 3"
  define ok where "ok \<longleftrightarrow> add32 s 0 < length row \<and> add32 s 1 < length row
               \<and> add32 s 2 < length row
               \<and> add32 d 0 < length px \<and> add32 d 1 < length px
               \<and> add32 d 2 < length px"
  define px1 where "px1 = px[add32 d 0 := Some (row ! add32 s 2),
                       add32 d 1 := Some (row ! add32 s 1),
                       add32 d 2 := Some (row ! add32 s 0)]"
  have step: "load_pixels w ty row px x
      = (if ok then load_pixels w ty row px1 (x + 1) else None)"
    using xlt by (subst load_pixels.simps) (simp add: Let_def d_def s_def px1_def ok_def)
  with Suc.prems have ok: ok and r: "load_pixels w ty row px1 (x + 1) = Some px'"
    by (simp_all split: if_splits)
  have "n = w - (x + 1)" using Suc.hyps(2) by simp
  from Suc.hyps(1) [OF this r]
  have l: "length px' = length px1"
    and c: "\<And>x'. x + 1 \<le> x' \<Longrightarrow> x' < w \<Longrightarrow> add32 (mul32 x' 3) 2 < length row
          \<and> (\<forall>k<3. add32 (mul32 (add32 (mul32 ty w) x') 3) k < length px1)"
    by simp_all
  have len1: "length px1 = length px" by (simp add: px1_def)
  have here: "add32 (mul32 x 3) 2 < length row
          \<and> (\<forall>k<3. add32 (mul32 (add32 (mul32 ty w) x) 3) k < length px)"
  proof -
    have "add32 d k < length px" if "k < 3" for k
    proof -
      consider "k = 0" | "k = 1" | "k = 2" using \<open>k < 3\<close> by arith
      then show ?thesis using ok by cases (simp_all add: ok_def)
    qed
    then show ?thesis using ok by (simp add: ok_def d_def s_def)
  qed
  have "add32 (mul32 x' 3) 2 < length row
          \<and> (\<forall>k<3. add32 (mul32 (add32 (mul32 ty w) x') 3) k < length px)"
    if th: "x \<le> x'" "x' < w" for x'
  proof (cases "x' = x")
    case True
    then show ?thesis using here by simp
  next
    case False
    then have "x + 1 \<le> x'" using th(1) by simp
    from c [OF this th(2)] show ?thesis by (simp add: len1)
  qed
  with l len1 show ?case by simp
qed

lemma fread_exact:
  assumes "fread n (content, pos) = (row, f')" and "length row = n" and "0 < n"
  shows "pos + n \<le> length content \<and> f' = (content, pos + n)"
  using assms by (auto simp: fread_def Let_def min_def split: if_splits)

lemma load_rows_checks:
  fixes td :: bool and h :: nat
  defines "T \<equiv> \<lambda>y. if td then y else h - 1 - y"
  assumes "load_rows w h rs td (content, pos) px y = Some (Inr px')" and "0 < w"
  shows "(y < h \<longrightarrow> pos + (h - y) * rs \<le> length content)
    \<and> (\<forall>y' x'. y \<le> y' \<and> y' < h \<and> x' < w \<longrightarrow> add32 (mul32 x' 3) 2 < rs
          \<and> (\<forall>k<3. add32 (mul32 (add32 (mul32 (T y') w) x') 3) k < length px))"
  using assms(2)
proof (induction "h - y" arbitrary: y pos px)
  case 0
  then show ?case by simp
next
  case (Suc n)
  have ylt: "y < h" using Suc.hyps(2) by simp
  obtain row f' where rd: "fread rs (content, pos) = (row, f')"
    by (cases "fread rs (content, pos)")
  have step: "load_rows w h rs td (content, pos) px y
      = (if length row \<noteq> rs then Some (Inl OPENF_ERR_READ_FAILED)
         else case load_pixels w (T y) row px 0 of None \<Rightarrow> None
              | Some px1 \<Rightarrow> load_rows w h rs td f' px1 (y + 1))"
    using ylt by (subst load_rows.simps) (simp add: rd Let_def T_def)
  with Suc.prems obtain px1 where rl: "length row = rs"
    and lp: "load_pixels w (T y) row px 0 = Some px1"
    and r: "load_rows w h rs td f' px1 (y + 1) = Some (Inr px')"
    by (auto split: if_splits option.splits)
  from load_pixels_checks [OF lp]
  have len1: "length px1 = length px"
    and c1: "\<And>x'. x' < w \<Longrightarrow> add32 (mul32 x' 3) 2 < rs
          \<and> (\<forall>k<3. add32 (mul32 (add32 (mul32 (T y) w) x') 3) k < length px)"
    by (simp_all add: rl)
  have "0 < rs" using c1 [OF assms(3)] by simp
  from fread_exact [OF rd rl this]
  have room: "pos + rs \<le> length content" and f': "f' = (content, pos + rs)"
    by simp_all
  have n: "n = h - (y + 1)" using Suc.hyps(2) by simp
  from Suc.hyps(1) [OF n r [unfolded f']]
  have room': "y + 1 < h \<Longrightarrow> pos + rs + (h - (y + 1)) * rs \<le> length content"
    and c: "\<And>y' x'. y + 1 \<le> y' \<Longrightarrow> y' < h \<Longrightarrow> x' < w \<Longrightarrow> add32 (mul32 x' 3) 2 < rs
          \<and> (\<forall>k<3. add32 (mul32 (add32 (mul32 (T y') w) x') 3) k < length px1)"
    by simp_all
  have R: "pos + (h - y) * rs \<le> length content"
  proof (cases "y + 1 < h")
    case True
    have "h - y = Suc (h - (y + 1))" using ylt by simp
    then have "pos + rs + (h - (y + 1)) * rs = pos + (h - y) * rs"
      by (metis add.assoc add.commute mult_Suc)
    with room' [OF True] show ?thesis by simp
  next
    case False
    then have "h - y = 1" using ylt by simp
    with room show ?thesis by simp
  qed
  have "add32 (mul32 x' 3) 2 < rs
          \<and> (\<forall>k<3. add32 (mul32 (add32 (mul32 (T y') w) x') 3) k < length px)"
    if th: "y \<le> y'" "y' < h" "x' < w" for y' x'
  proof (cases "y' = y")
    case True
    then show ?thesis using c1 [OF th(3)] by simp
  next
    case False
    then have "y + 1 \<le> y'" using th(1) by simp
    from c [OF this th(2,3)] show ?thesis by (simp add: len1)
  qed
  with R show ?case by blast
qed

lemma row_size_le: "row_size w \<le> 4294967292"
proof -
  define q where "q = add32 (mul32 w 3) 3 div 4"
  have "add32 (mul32 w 3) 3 < 4294967296" by (simp add: add32_def)
  then have "q \<le> 1073741823" unfolding q_def by simp
  then have "mul32 q 4 \<le> 4294967292" by (simp add: mul32_def)
  then show ?thesis by (simp add: row_size_def q_def)
qed

lemma checks_no_wrap:
  fixes td :: bool and h :: nat
  defines "T \<equiv> \<lambda>y. if td then y else h - 1 - y"
  assumes w: "0 < w" and h: "0 < h"
    and checks: "\<And>y' x'. y' < h \<Longrightarrow> x' < w \<Longrightarrow> add32 (mul32 x' 3) 2 < row_size w
          \<and> (\<forall>k<3. add32 (mul32 (add32 (mul32 (T y') w) x') 3) k < mul32 (mul32 w h) 3)"
  shows "3 * w + 3 < 4294967296 \<and> 3 * (h * w) < 4294967296"
proof (intro conjI)
  show "3 * w + 3 < 4294967296"
  proof (rule ccontr)
    assume "\<not> 3 * w + 3 < 4294967296"
    then have "1431655764 < w" by simp
    from checks [OF h this] have "add32 (mul32 1431655764 3) 2 < row_size w" by simp
    moreover have "add32 (mul32 1431655764 3) 2 = 4294967294"
      by (simp add: add32_def mul32_def)
    ultimately show False using row_size_le [of w] by simp
  qed
  show "3 * (h * w) < 4294967296"
  proof (rule ccontr)
    assume big: "\<not> 3 * (h * w) < 4294967296"
    define A where "A = mul32 (mul32 w h) 3"
    have "(w * h mod 4294967296 * 3) mod 4294967296 = (w * h * 3) mod 4294967296"
      by (rule mod_mult_left_eq)
    then have A: "A = (3 * (h * w)) mod 4294967296"
      by (simp add: A_def mul32_def ac_simps)
    have Alt: "A < 4294967296" by (simp add: A)
    define q where "q = A div 3"
    define k where "k = A mod 3"
    have Aq: "A = 3 * q + k" by (simp add: q_def k_def)
    have k3: "k < 3" by (simp add: k_def)
    have "3 * q < 3 * (h * w)" using Aq Alt big by linarith
    then have qlt: "q < h * w" by simp
    define r where "r = q div w"
    define x where "x = q mod w"
    have r: "r < h" using qlt w by (simp add: r_def less_mult_imp_div_less)
    have x: "x < w" using w by (simp add: x_def)
    have qe: "r * w + x = q" by (simp add: r_def x_def)
    define y where "y = T r"
    have y: "y < h" using r by (simp add: y_def T_def)
    have Ty: "T y = r" using r by (auto simp: y_def T_def)
    have q32: "q < 4294967296" "3 * q < 4294967296" "r * w < 4294967296"
      using Aq Alt qe by simp_all
    have "mul32 (add32 (mul32 r w) x) 3 = 3 * q"
      using q32 qe by (simp add: mul32_id add32_id mult.commute)
    moreover have "add32 (3 * q) k = A"
      using Aq Alt by (simp add: add32_id)
    ultimately have "add32 (mul32 (add32 (mul32 (T y) w) x) 3) k = A"
      by (simp add: Ty)
    moreover from checks [OF y x] k3
    have "add32 (mul32 (add32 (mul32 (T y) w) x) 3) k < A"
      by (simp add: A_def)
    ultimately show False by simp
  qed
qed

lemma load_bmp_truncated_info:
  assumes "fs p = Some content" and "14 \<le> length content" and "length content < 54"
    and "bfType (file_header_of content) = 0x4D42"
  shows "openf_load_bmp fs (Some p) = Some (Inl OPENF_ERR_READ_FAILED)"
proof -
  have r1: "fread 14 (content, 0) = (take 14 content, (content, 14))"
    using assms(2) fread_full [of 0 14 content] by simp
  have r2: "fread 40 (content, 14) = (drop 14 content, (content, length content))"
    using assms(2,3) by (simp add: fread_def Let_def)
  have "length (drop 14 content) \<noteq> 40"
    using assms(2,3) by simp
  then show ?thesis
    using assms
    by (simp add: openf_load_bmp_def r1 r2 file_header_of_def Let_def)
qed

lemma load_bmp_success_accepted:
  assumes "fs p = Some content" and "openf_load_bmp fs (Some p) = Some (Inr img)"
  shows "accepted_headers content"
proof (rule ccontr)
  assume na: "\<not> accepted_headers content"
  have "\<exists>e. openf_load_bmp fs (Some p) = Some (Inl e)"
  proof (cases "length content < 14")
    case True
    with assms(1) show ?thesis by (blast intro: load_bmp_short_file)
  next
    case l14: False
    show ?thesis
    proof (cases "bfType (file_header_of content) = 0x4D42")
      case False
      from load_bmp_bad_signature [of fs p content, OF assms(1) _ this] l14 show ?thesis by auto
    next
      case sig: True
      show ?thesis
      proof (cases "length content < 54")
        case True
        from load_bmp_truncated_info [of fs p content, OF assms(1) _ this sig] l14 show ?thesis by auto
      next
        case l54: False
        show ?thesis
        proof (cases "biBitCount (info_header_of content) \<noteq> 24
                       \<or> biCompression (info_header_of content) \<noteq> 0")
          case True
          from load_bmp_unsupported [of fs p content, OF assms(1) _ sig this] l54 show ?thesis by auto
        next
          case False
          with na l54 sig
          have "sint (biWidth (info_header_of content)) \<le> 0 \<or> biHeight (info_header_of content) = 0"
            by (auto simp: accepted_headers_def)
          from load_bmp_bad_dimensions [of fs p content, OF assms(1) _ sig _ _ this] l54 False show ?thesis
            by auto
        qed
      qed
    qed
  qed
  with assms(2) show False by simp
qed

lemma stored_height_pos: "biHeight ih \<noteq> 0 \<Longrightarrow> 0 < stored_height ih"
  by (simp add: stored_height_def unat_gt_0)

lemma load_bmp_success_decodable:
  assumes "fs p = Some content" and "openf_load_bmp fs (Some p) = Some (Inr img)"
  shows "decodable content"
proof -
  define ih where "ih = info_header_of content"
  define w where "w = unat (biWidth ih)"
  define h where "h = stored_height ih"
  define off where "off = unat (bfOffBits (file_header_of content))"
  define td where "td \<longleftrightarrow> sint (biHeight ih) < 0"
  have acc: "accepted_headers content"
    using assms by (rule load_bmp_success_accepted)
  then have w: "0 < w" and h: "0 < h"
    by (simp_all add: accepted_headers_def w_def h_def ih_def sint_pos_iff stored_height_pos)
  have "map_sum id f x = Inr img \<Longrightarrow> \<exists>px'. x = Inr px'"
    for f :: "byte option list \<Rightarrow> OpenF_Image" and x :: "OpenF_Error + byte option list"
    by (cases x) simp_all
  with assms(2) obtain px' where
    lr: "load_rows w h (row_size w) td (content, off) (replicate (mul32 (mul32 w h) 3) None) 0
           = Some (Inr px')"
    unfolding load_bmp_accepted [of fs p content, OF assms(1) acc]
      ih_def [symmetric] w_def [symmetric] h_def [symmetric] off_def [symmetric] td_def [symmetric]
    by (fastforce simp: map_option_case split: option.splits)
  from load_rows_checks [OF lr w] h
  have room: "off + h * row_size w \<le> length content"
    and c: "\<And>y' x'. y' < h \<Longrightarrow> x' < w \<Longrightarrow> add32 (mul32 x' 3) 2 < row_size w
          \<and> (\<forall>k<3. add32 (mul32 (add32 (mul32 (if td then y' else h - 1 - y') w) x') 3) k
                  < mul32 (mul32 w h) 3)"
    by simp_all
  from checks_no_wrap [of w h td, OF w h c]
  have "3 * w + 3 < 4294967296" "3 * (h * w) < 4294967296" by simp_all
  with acc room show ?thesis
    by (simp add: decodable_def ih_def w_def h_def off_def)
qed

lemma load_bmp_succeeds_iff:
  assumes "fs p = Some content"
  shows "(\<exists>img. openf_load_bmp fs (Some p) = Some (Inr img)) \<longleftrightarrow> decodable content"
proof
  assume "\<exists>img. openf_load_bmp fs (Some p) = Some (Inr img)"
  with assms show "decodable content" by (blast intro: load_bmp_success_decodable)
next
  assume "decodable content"
  with load_bmp_decodes [of fs p content, OF assms]
  show "\<exists>img. openf_load_bmp fs (Some p) = Some (Inr img)"
    by (auto simp: decodable_def)
qed

text \<open>With accepted headers and sizes that do not wrap around, every access of the
  decoder is inside its buffers, so the only failure left is a row that the file does
  not hold.\<close>

lemma load_rows_defined:
  assumes "y \<le> h" and "3 * w \<le> rs" and "3 * (h * w) \<le> length px"
    and "3 * (h * w) < 4294967296"
  shows "load_rows w h rs td f px y \<noteq> None"
  using assms(1,3)
proof (induction "h - y" arbitrary: y f px)
  case 0
  then show ?case by (subst load_rows.simps) simp
next
  case (Suc n)
  have ylt: "y < h" using Suc.hyps(2) by simp
  obtain row f' where rd: "fread rs f = (row, f')" by (cases "fread rs f")
  show ?case
  proof (cases "length row \<noteq> rs")
    case True
    with ylt rd show ?thesis by (subst load_rows.simps) simp
  next
    case False
    define ty where "ty = (if td then y else h - 1 - y)"
    have "ty < h" using ylt by (simp add: ty_def)
    then have "ty * w + w \<le> h * w"
      using mult_le_mono1 [of "Suc ty" h w] by simp
    then have b: "3 * (ty * w + w) \<le> length px" "3 * (ty * w + w) < 4294967296"
      using Suc.prems(2) assms(4) by simp_all
    have "3 * w \<le> length row" using False assms(2) by simp
    from load_pixels_ok [of 0 w row ty px, OF _ this b]
    obtain px' where lp: "load_pixels w ty row px 0 = Some px'" and l: "length px' = length px"
      by auto
    have "load_rows w h rs td f' px' (y + 1) \<noteq> None"
      using Suc.hyps(2) ylt Suc.prems(2) l by (intro Suc.hyps(1)) simp_all
    moreover have "load_rows w h rs td f px y = load_rows w h rs td f' px' (y + 1)"
      using ylt rd False lp by (subst load_rows.simps) (simp add: ty_def Let_def)
    ultimately show ?thesis by simp
  qed
qed

lemma load_bmp_truncated_rows:
  fixes content :: "byte list"
  defines "ih \<equiv> info_header_of content"
  defines "w \<equiv> unat (biWidth ih)" and "h \<equiv> stored_height ih"
  defines "off \<equiv> unat (bfOffBits (file_header_of content))"
  assumes "fs p = Some content" and "accepted_headers content"
    and "3 * w + 3 < 4294967296" and "3 * (h * w) < 4294967296"
    and "length content < off + h * row_size w"
  shows "openf_load_bmp fs (Some p) = Some (Inl OPENF_ERR_READ_FAILED)"
proof -
  have "w * h < 4294967296" using assms(8) by (simp add: mult.commute)
  then have sz: "mul32 (mul32 w h) 3 = 3 * (h * w)"
    using assms(8) by (simp add: mul32_id mult.commute)
  have "load_rows w h (row_size w) (sint (biHeight ih) < 0) (content, off)
          (replicate (mul32 (mul32 w h) 3) None) 0 \<noteq> None"
    using assms(7,8) by (intro load_rows_defined) (simp_all add: sz row_size_ge)
  then have nn: "openf_load_bmp fs (Some p) \<noteq> None"
    unfolding load_bmp_accepted [of fs p content, OF assms(5,6)]
    by (simp add: w_def h_def ih_def off_def)
  have "\<not> decodable content"
    using assms(9) by (simp add: decodable_def w_def h_def ih_def off_def)
  then have ni: "openf_load_bmp fs (Some p) \<noteq> Some (Inr img)" for img
    using load_bmp_success_decodable [of fs p content img] assms(5) by blast
  from nn obtain r where r: "openf_load_bmp fs (Some p) = Some r" by auto
  show ?thesis
  proof (cases r)
    case (Inl e)
    with r load_bmp_accepted_error [of fs p content e] assms(5,6) show ?thesis by simp
  next
    case (Inr img)
    with r ni show ?thesis by simp
  qed
qed

subsection \<open>What the outcome of the decoder depends on\<close>

lemma fread_drop:
  assumes "drop pos content = drop pos' content'"
  shows "fst (fread n (content, pos)) = fst (fread n (content', pos'))"
    and "drop (snd (snd (fread n (content, pos)))) content
           = drop (snd (snd (fread n (content', pos')))) content'"
proof -
  show "fst (fread n (content, pos)) = fst (fread n (content', pos'))"
    using assms by (simp add: fread_def Let_def)
  have "drop (pos + k) content = drop (pos' + k) content'" for k
    using assms by (metis add.commute drop_drop)
  then show "drop (snd (snd (fread n (content, pos)))) content
           = drop (snd (snd (fread n (content', pos')))) content'"
    using assms by (simp add: fread_def Let_def)
qed

lemma load_rows_drop:
  assumes "drop pos content = drop pos' content'"
  shows "load_rows w h rs td (content, pos) px y = load_rows w h rs td (content', pos') px y"
  using assms
proof (induction "h - y" arbitrary: y pos pos' px)
  case 0
  then show ?case by (simp add: load_rows.simps [of w h rs td _ px y])
next
  case (Suc n)
  have ylt: "y < h" using Suc.hyps(2) by simp
  obtain row f1 where rd: "fread rs (content, pos) = (row, f1)"
    by (cases "fread rs (content, pos)")
  obtain row' f1' where rd': "fread rs (content', pos') = (row', f1')"
    by (cases "fread rs (content', pos')")
  have f1: "f1 = (content, snd f1)" using rd by (auto simp: fread_def Let_def)
  have f1': "f1' = (content', snd f1')" using rd' by (auto simp: fread_def Let_def)
  from fread_drop [OF Suc.prems, of rs] have rows: "row' = row"
    and dr: "drop (snd f1) content = drop (snd f1') content'"
    by (simp_all add: rd rd')
  have n: "n = h - (y + 1)" using Suc.hyps(2) by simp
  have rec: "load_rows w h rs td f1 px1 (Suc y) = load_rows w h rs td f1' px1 (Suc y)" for px1
    using Suc.hyps(1) [OF n dr, of px1] f1 f1' by simp
  define ty where "ty = (if td then y else h - 1 - y)"
  have step: "load_rows w h rs td (content, pos) px y
      = (if length row \<noteq> rs then Some (Inl OPENF_ERR_READ_FAILED)
         else case load_pixels w ty row px 0 of None \<Rightarrow> None
              | Some px1 \<Rightarrow> load_rows w h rs td f1 px1 (y + 1))"
    using ylt by (subst load_rows.simps) (simp add: rd Let_def ty_def)
  have step': "load_rows w h rs td (content', pos') px y
      = (if length row \<noteq> rs then Some (Inl OPENF_ERR_READ_FAILED)
         else case load_pixels w ty row px 0 of None \<Rightarrow> None
              | Some px1 \<Rightarrow> load_rows w h rs td f1' px1 (y + 1))"
    using ylt by (subst load_rows.simps) (simp add: rd' rows Let_def ty_def)
  show ?case
    unfolding step step' by (simp add: rec split: option.splits)
qed

lemma load_bmp_cong:
  assumes "fs p = Some content" and "fs' p' = Some content'"
    and "54 \<le> length content" and "54 \<le> length content'"
    and "bfType (file_header_of content') = bfType (file_header_of content)"
    and "biBitCount (info_header_of content') = biBitCount (info_header_of content)"
    and "biCompression (info_header_of content') = biCompression (info_header_of content)"
    and "biWidth (info_header_of content') = biWidth (info_header_of content)"
    and "biHeight (info_header_of content') = biHeight (info_header_of content)"
    and "drop (unat (bfOffBits (file_header_of content'))) content'
           = drop (unat (bfOffBits (file_header_of content))) content"
  shows "openf_load_bmp fs' (Some p') = openf_load_bmp fs (Some p)"
proof (cases "accepted_headers content")
  case True
  then have acc': "accepted_headers content'"
    using assms(4-9) by (simp add: accepted_headers_def)
  show ?thesis
    unfolding load_bmp_accepted [of fs p content, OF assms(1) True]
      load_bmp_accepted [of fs' p' content', OF assms(2) acc']
    using assms(5-9) load_rows_drop [OF assms(10)]
    by (simp add: stored_height_def)
next
  case False
  then have na': "\<not> accepted_headers content'"
    using assms(3-9) by (simp add: accepted_headers_def)
  have r1: "fread 14 (content, 0) = (take 14 content, (content, 14))"
    using assms(3) fread_full [of 0 14 content] by simp
  have r2: "fread 40 (content, 14) = (take 40 (drop 14 content), (content, 54))"
    using assms(3) fread_full [of 14 40 content] by simp
  have r1': "fread 14 (content', 0) = (take 14 content', (content', 14))"
    using assms(4) fread_full [of 0 14 content'] by simp
  have r2': "fread 40 (content', 14) = (take 40 (drop 14 content'), (content', 54))"
    using assms(4) fread_full [of 14 40 content'] by simp
  show ?thesis
    using assms(1-9) False na'
    by (auto simp: openf_load_bmp_def r1 r2 r1' r2' accepted_headers_def file_header_of_def
        info_header_of_def Let_def)
qed

lemma drop_bmp_file_ge: "54 \<le> n \<Longrightarrow> drop n (bmp_file fh ih rest) = drop (n - 54) rest"
  by (simp add: bmp_file_def)

lemma row_size_small [simp]: "row_size 1 = 4" "row_size 2 = 8" "row_size 4 = 12" "row_size 5 = 16"
  by (simp_all add: row_size_def mul32_def add32_def)

subsection \<open>Examples\<close>

lemma fread_bmp_file:
  "54 \<le> pos \<Longrightarrow> fread n (bmp_file fh ih rest, pos)
     = (take n (drop (pos - 54) rest),
        (bmp_file fh ih rest, pos + length (take n (drop (pos - 54) rest))))"
  by (simp add: fread_def Let_def drop_bmp_file_ge)

lemma accepted_std [simp]:
  "accepted_headers (bmp_file (std_file_header off) (std_info_header w h) rest)
     \<longleftrightarrow> 0 < sint w \<and> h \<noteq> 0"
  by (simp add: accepted_headers_def std_file_header_def std_info_header_def)

lemma row_size_Suc_0 [simp]: "row_size (Suc 0) = 4"
  by (simp add: row_size_def mul32_def add32_def)

lemma load_single_pixel:
  "openf_load_bmp [''a.bmp'' \<mapsto> bmp_file (std_file_header 54) (std_info_header 1 1)
                                    [0x10, 0x20, 0x30, 0]] (Some ''a.bmp'')
     = Some (Inr \<lparr>width = 1, height = 1, pixels = Some [0x30, 0x20, 0x10]\<rparr>)"
proof -
  have "load_pixels 1 0 [0x10, 0x20, 0x30, 0] [None, None, None] 0
          = Some [Some 0x30, Some 0x20, Some 0x10]"
    by (simp add: load_pixels.simps mul32_def add32_def Let_def)
  moreover have "replicate 3 None = [None, None, None :: byte option]"
    by (simp add: numeral_eq_Suc)
  ultimately show ?thesis
    unfolding load_bmp_accepted
      [of "[''a.bmp'' \<mapsto> bmp_file (std_file_header 54) (std_info_header 1 1) [0x10, 0x20, 0x30, 0]]"
          "''a.bmp''" "bmp_file (std_file_header 54) (std_info_header 1 1) [0x10, 0x20, 0x30, 0]",
       simplified]
    by (simp add: std_file_header_def std_info_header_def stored_height_def load_rows.simps
        fread_bmp_file mul32_def)
qed

lemma replicate6: "replicate 6 None = [None, None, None, None, None, None :: byte option]"
  by (simp add: numeral_eq_Suc)

lemma load_two_rows_bottom_up:
  "openf_load_bmp [''a.bmp'' \<mapsto> bmp_file (std_file_header 54) (std_info_header 1 2)
                                    [1, 2, 3, 0, 4, 5, 6, 0]] (Some ''a.bmp'')
     = Some (Inr \<lparr>width = 1, height = 2, pixels = Some [6, 5, 4, 3, 2, 1]\<rparr>)"
    unfolding load_bmp_accepted
      [of "[''a.bmp'' \<mapsto> bmp_file (std_file_header 54) (std_info_header 1 2) [1, 2, 3, 0, 4, 5, 6, 0]]"
          "''a.bmp''" "bmp_file (std_file_header 54) (std_info_header 1 2)  [1, 2, 3, 0, 4, 5, 6, 0]",
       simplified]
    by (simp add: std_file_header_def std_info_header_def stored_height_def load_rows.simps
        load_pixels.simps fread_bmp_file mul32_def add32_def replicate6 Let_def)

lemma load_two_rows_top_down:
  "openf_load_bmp [''a.bmp'' \<mapsto> bmp_file (std_file_header 54) (std_info_header 1 (- 2))
                                    [1, 2, 3, 0, 4, 5, 6, 0]] (Some ''a.bmp'')
     = Some (Inr \<lparr>width = 1, height = 2, pixels = Some [3, 2, 1, 6, 5, 4]\<rparr>)"
    unfolding load_bmp_accepted
      [of "[''a.bmp'' \<mapsto> bmp_file (std_file_header 54) (std_info_header 1 (- 2)) [1, 2, 3, 0, 4, 5, 6, 0]]"
          "''a.bmp''" "bmp_file (std_file_header 54) (std_info_header 1 (- 2))  [1, 2, 3, 0, 4, 5, 6, 0]",
       simplified]
    by (simp add: std_file_header_def std_info_header_def stored_height_def load_rows.simps
        load_pixels.simps fread_bmp_file mul32_def add32_def replicate6 Let_def)

lemma load_pixel_after_gap:
  "openf_load_bmp [''a.bmp'' \<mapsto> bmp_file (std_file_header 60) (std_info_header 1 1)
                                    [1, 2, 3, 4, 5, 6, 0x10, 0x20, 0x30, 0]] (Some ''a.bmp'')
     = Some (Inr \<lparr>width = 1, height = 1, pixels = Some [0x30, 0x20, 0x10]\<rparr>)"
proof -
  have "load_pixels 1 0 [0x10, 0x20, 0x30, 0] [None, None, None] 0
          = Some [Some 0x30, Some 0x20, Some 0x10]"
    by (simp add: load_pixels.simps mul32_def add32_def Let_def)
  moreover have "replicate 3 None = [None, None, None :: byte option]"
    by (simp add: numeral_eq_Suc)
  ultimately show ?thesis
    unfolding load_bmp_accepted
      [of "[''a.bmp'' \<mapsto> bmp_file (std_file_header 60) (std_info_header 1 1)
                            [1, 2, 3, 4, 5, 6, 0x10, 0x20, 0x30, 0]]"
          "''a.bmp''" "bmp_file (std_file_header 60) (std_info_header 1 1)
                            [1, 2, 3, 4, 5, 6, 0x10, 0x20, 0x30, 0]",
       simplified]
    by (simp add: std_file_header_def std_info_header_def stored_height_def load_rows.simps
        fread_bmp_file mul32_def Let_def)
qed

lemma save_single_pixel:
  "openf_save_bmp Map.empty (Some ''a.bmp'')
       (Some \<lparr>width = 1, height = 1, pixels = Some [0x30, 0x20, 0x10]\<rparr>)
     = Some (OPENF_OK, [''a.bmp'' \<mapsto> save_headers 1 1 @ [0x10, 0x20, 0x30, 0]])"
proof -
  have r: "replicate 4 (0 :: byte) = [0, 0, 0, 0]"
    by (simp add: numeral_eq_Suc)
  have "save_pixels 1 0 [0x30, 0x20, 0x10] [0, 0, 0, 0] 0 = Some [0x10, 0x20, 0x30, 0 :: byte]"
    by (simp add: save_pixels.simps mul32_def add32_def Let_def)
  then show ?thesis
    by (simp add: openf_save_bmp_def save_headers_def save_rows.simps r Let_def)
qed

subsection \<open>The image a successful decoding returns\<close>

lemma load_bmp_decoded:
  fixes content :: "byte list"
  defines "ih \<equiv> info_header_of content"
  defines "w \<equiv> unat (biWidth ih)" and "h \<equiv> stored_height ih"
  defines "off \<equiv> unat (bfOffBits (file_header_of content))"
  assumes "fs p = Some content" and "openf_load_bmp fs (Some p) = Some (Inr img)"
  shows "\<exists>pxs. img = \<lparr>width = biWidth ih, height = word_of_nat h, pixels = Some pxs\<rparr>
      \<and> length pxs = 3 * (h * w)
      \<and> (\<forall>i x c. i < h \<and> x < w \<and> c < 3
            \<longrightarrow> pxs ! (3 * (target_row ih i * w + x) + c)
                = content ! (off + i * row_size w + 3 * x + 2 - c))"
proof -
  have "decodable content" using assms(5,6) by (rule load_bmp_success_decodable)
  then have d: "accepted_headers content" "3 * w + 3 < 4294967296" "3 * (h * w) < 4294967296"
    "off + h * row_size w \<le> length content"
    by (simp_all add: decodable_def w_def h_def ih_def off_def)
  from load_bmp_decodes [of fs p content, OF assms(5) d [unfolded w_def h_def ih_def off_def]]
  show ?thesis
    unfolding assms(6) w_def h_def ih_def off_def by auto
qed

lemma decodable_std:
  "decodable (bmp_file (std_file_header off) (std_info_header w h) rest)
     \<longleftrightarrow> 0 < sint w \<and> h \<noteq> 0 \<and> 3 * unat w + 3 < 4294967296
          \<and> 3 * (stored_height (std_info_header w h) * unat w) < 4294967296
          \<and> unat off + stored_height (std_info_header w h) * row_size (unat w) \<le> 54 + length rest"
  by (simp add: decodable_def) (simp add: std_file_header_def std_info_header_def)

subsection \<open>The encoder on images of any size\<close>







subsection \<open>The headers the encoder writes\<close>

lemma unat_u32_of_nat: "unat (word_of_nat n :: 32 word) = n mod 4294967296"
  by (simp add: unat_of_nat)

lemma save_headers_signature: "save_headers w h ! 0 = 0x42 \<and> save_headers w h ! 1 = 0x4D"
  by (simp add: save_headers_def write_file_header_def save_file_header_def put16_def)

lemma save_zero_height:
  "openf_save_bmp Map.empty (Some ''a.bmp'') (Some \<lparr>width = 1, height = 0, pixels = Some []\<rparr>)
     = Some (OPENF_OK, [''a.bmp'' \<mapsto> save_headers 1 0])"
  by (simp add: openf_save_bmp_def save_headers_def save_rows.simps Let_def)

lemma decodable_cong:
  assumes "length content' = length content"
    and "bfType (file_header_of content') = bfType (file_header_of content)"
    and "bfOffBits (file_header_of content') = bfOffBits (file_header_of content)"
    and "biBitCount (info_header_of content') = biBitCount (info_header_of content)"
    and "biCompression (info_header_of content') = biCompression (info_header_of content)"
    and "biWidth (info_header_of content') = biWidth (info_header_of content)"
    and "biHeight (info_header_of content') = biHeight (info_header_of content)"
  shows "decodable content' \<longleftrightarrow> decodable content"
  using assms by (simp add: decodable_def accepted_headers_def stored_height_def)

section \<open>The claims of the specification\<close>

subsection \<open>C1: encoding followed by decoding\<close>

text \<open>
  Claim C1. For every image whose width and height lie between 1 and 4096 and whose
  pixel buffer holds exactly \<open>width * height * 3\<close> bytes of any content,
  \<^verbatim>\<open>openf_save_bmp\<close> returns \<^verbatim>\<open>OPENF_OK\<close>, and \<^verbatim>\<open>openf_load_bmp\<close> on the file it wrote
  succeeds and returns an image with the same width, the same height and a pixel buffer
  that is byte for byte the original one (the returned record equals the original).
\<close>

theorem roundtrip_save_load:
  assumes "1 \<le> unat (width img)" and "unat (width img) \<le> 4096"
    and "1 \<le> unat (height img)" and "unat (height img) \<le> 4096"
    and "pixels img = Some px"
    and "length px = unat (width img) * unat (height img) * 3"
  shows "\<exists>fs'. openf_save_bmp fs (Some p) (Some img) = Some (OPENF_OK, fs')
           \<and> openf_load_bmp fs' (Some p) = Some (Inr img)"
proof -
  have "unat (height img) * unat (width img) \<le> 4096 * 4096"
    using assms(2,4) by (rule mult_le_mono [OF _ _, rotated])
  then have "3 * (unat (height img) * unat (width img)) < 4294967296"
    by simp
  then show ?thesis
    using assms by (intro roundtrip_general [of img px]) (simp_all add: mult.commute)
qed

text \<open>The theorem at a 2 by 2 image with twelve distinct bytes.\<close>

theorem roundtrip_save_load_witness:
  "\<exists>fs'. openf_save_bmp Map.empty (Some ''a.bmp'')
            (Some \<lparr>width = 2, height = 2, pixels = Some [1, 2, 3, 4, 5, 6, 7, 8, 9, 10, 11, 12]\<rparr>)
            = Some (OPENF_OK, fs')
       \<and> openf_load_bmp fs' (Some ''a.bmp'')
            = Some (Inr \<lparr>width = 2, height = 2,
                         pixels = Some [1, 2, 3, 4, 5, 6, 7, 8, 9, 10, 11, 12]\<rparr>)"
  using roundtrip_save_load
    [of "\<lparr>width = 2, height = 2, pixels = Some [1, 2, 3, 4, 5, 6, 7, 8, 9, 10, 11, 12]\<rparr>"
        "[1, 2, 3, 4, 5, 6, 7, 8, 9, 10, 11, 12]" Map.empty "''a.bmp''"]
  by simp

subsection \<open>C2: the destination of a stored row\<close>

text \<open>
  Claim C2. Whenever \<^verbatim>\<open>openf_load_bmp\<close> decodes a file, the rows land as the storage
  order says. With a negative stored height (top-down storage) the \<open>i\<close>-th stored row,
  which starts at byte \<open>off + i * row_size w\<close> of the file, fills canonical row \<open>i\<close>, so
  the first stored row is row 0. With a positive stored height (bottom-up storage) it
  fills canonical row \<open>h - 1 - i\<close>, so the first stored row is the last row. Here \<open>h\<close>
  is the height magnitude and byte \<open>c\<close> of pixel \<open>x\<close> of a canonical row is byte
  \<open>2 - c\<close> of pixel \<open>x\<close> of the stored row. The inputs the decoder decodes are
  characterised by lemma \<open>load_bmp_succeeds_iff\<close>.
\<close>

theorem row_destination_follows_storage_order:
  fixes content :: "byte list"
  defines "ih \<equiv> info_header_of content"
  defines "w \<equiv> unat (biWidth ih)" and "h \<equiv> stored_height ih"
  defines "off \<equiv> unat (bfOffBits (file_header_of content))"
  assumes "fs p = Some content" and "openf_load_bmp fs (Some p) = Some (Inr img)"
  shows "\<exists>pxs. pixels img = Some pxs \<and> length pxs = 3 * (h * w)
      \<and> (sint (biHeight ih) < 0 \<longrightarrow>
            (\<forall>i x c. i < h \<and> x < w \<and> c < 3
               \<longrightarrow> pxs ! (3 * (i * w + x) + c)
                     = content ! (off + i * row_size w + 3 * x + 2 - c)))
      \<and> (0 < sint (biHeight ih) \<longrightarrow>
            (\<forall>i x c. i < h \<and> x < w \<and> c < 3
               \<longrightarrow> pxs ! (3 * ((h - 1 - i) * w + x) + c)
                     = content ! (off + i * row_size w + 3 * x + 2 - c)))"
proof -
  from load_bmp_decoded [OF assms(5,6)] obtain pxs where
    img: "img = \<lparr>width = biWidth ih, height = word_of_nat h, pixels = Some pxs\<rparr>"
    and len: "length pxs = 3 * (h * w)"
    and a: "\<And>i x c. i < h \<Longrightarrow> x < w \<Longrightarrow> c < 3
            \<Longrightarrow> pxs ! (3 * (target_row ih i * w + x) + c)
                = content ! (off + i * row_size w + 3 * x + 2 - c)"
    unfolding ih_def w_def h_def off_def by blast
  have "pxs ! (3 * (i * w + x) + c) = content ! (off + i * row_size w + 3 * x + 2 - c)"
    if "sint (biHeight ih) < 0" "i < h" "x < w" "c < 3" for i x c
    using a [OF that(2,3,4)] that(1) by (simp add: target_row_def)
  moreover
  have "pxs ! (3 * ((h - 1 - i) * w + x) + c) = content ! (off + i * row_size w + 3 * x + 2 - c)"
    if "0 < sint (biHeight ih)" "i < h" "x < w" "c < 3" for i x c
    using a [OF that(2,3,4)] that(1) by (simp add: target_row_def h_def)
  ultimately show ?thesis
    using img len by (intro exI [of _ pxs]) simp
qed

text \<open>The theorem at two files with the same two stored rows \<open>[1, 2, 3]\<close> and
  \<open>[4, 5, 6]\<close>, one with height \<open>-2\<close> and one with height \<open>2\<close>: the first
  stored row is decoded to row 0 in the first file and to row 1 in the second.\<close>

theorem row_destination_follows_storage_order_witness:
  "openf_load_bmp [''a.bmp'' \<mapsto> bmp_file (std_file_header 54) (std_info_header 1 (- 2))
                                    [1, 2, 3, 0, 4, 5, 6, 0]] (Some ''a.bmp'')
     = Some (Inr \<lparr>width = 1, height = 2, pixels = Some [3, 2, 1, 6, 5, 4]\<rparr>)
   \<and> openf_load_bmp [''a.bmp'' \<mapsto> bmp_file (std_file_header 54) (std_info_header 1 2)
                                    [1, 2, 3, 0, 4, 5, 6, 0]] (Some ''a.bmp'')
     = Some (Inr \<lparr>width = 1, height = 2, pixels = Some [6, 5, 4, 3, 2, 1]\<rparr>)
   \<and> (\<exists>pxs. Some [3, 2, 1, 6, 5, 4] = Some pxs \<and> length pxs = 3 * (2 * 1)
        \<and> (\<forall>i x c. i < 2 \<and> x < 1 \<and> c < 3
               \<longrightarrow> pxs ! (3 * (i * 1 + x) + c)
                     = bmp_file (std_file_header 54) (std_info_header 1 (- 2))
                         [1, 2, 3, 0, 4, 5, 6, 0] ! (54 + i * 4 + 3 * x + 2 - c)))
   \<and> (\<exists>pxs. Some [6, 5, 4, 3, 2, 1] = Some pxs \<and> length pxs = 3 * (2 * 1)
        \<and> (\<forall>i x c. i < 2 \<and> x < 1 \<and> c < 3
               \<longrightarrow> pxs ! (3 * ((2 - 1 - i) * 1 + x) + c)
                     = bmp_file (std_file_header 54) (std_info_header 1 2)
                         [1, 2, 3, 0, 4, 5, 6, 0] ! (54 + i * 4 + 3 * x + 2 - c)))"
  using row_destination_follows_storage_order
      [OF _ load_two_rows_top_down] 
    row_destination_follows_storage_order
      [OF _ load_two_rows_bottom_up]
    load_two_rows_top_down load_two_rows_bottom_up
  by (simp add: std_file_header_def std_info_header_def stored_height_def)

subsection \<open>C3: channel order\<close>



subsection \<open>C4: the row stride\<close>

text \<open>
  Claim C4, amended. For every width with \<open>3 * width + 3 < 2 ^ 32\<close> (that is, up to
  1431655764) the row stride \<open>row_size width\<close>, which both functions compute by the same
  expression, is \<open>width * 3\<close> rounded up to the next multiple of 4: it equals
  \<open>(3 * width + 3) div 4 * 4\<close>, is a multiple of 4, is at least \<open>3 * width\<close> and less
  than \<open>3 * width + 4\<close>; width 1 gives 4, width 4 gives 12 and width 5 gives 16. A file
  that the decoder decodes has a width in this range and holds its rows at this stride
  from the declared offset on, and a file that the encoder writes for a width in this
  range has 54 bytes and then \<open>height\<close> rows of this stride.
\<close>

theorem row_stride_rounds_up:
  fixes content :: "byte list" and simg :: OpenF_Image
  defines "dw \<equiv> unat (biWidth (info_header_of content))"
  defines "dh \<equiv> stored_height (info_header_of content)"
  defines "off \<equiv> unat (bfOffBits (file_header_of content))"
  defines "sw \<equiv> unat (width simg)" and "sh \<equiv> unat (height simg)"
  shows "(3 * w + 3 < 4294967296 \<longrightarrow>
            row_size w = (3 * w + 3) div 4 * 4
            \<and> row_size w mod 4 = 0 \<and> 3 * w \<le> row_size w \<and> row_size w < 3 * w + 4)
       \<and> row_size 1 = 4 \<and> row_size 4 = 12 \<and> row_size 5 = 16
       \<and> (fs p = Some content \<and> openf_load_bmp fs (Some p) = Some (Inr img) \<longrightarrow>
            3 * dw + 3 < 4294967296
            \<and> off + dh * ((3 * dw + 3) div 4 * 4) \<le> length content)
       \<and> (3 * sw + 3 < 4294967296
            \<and> openf_save_bmp sfs (Some sp) (Some simg) = Some (OPENF_OK, sfs') \<longrightarrow>
            (\<exists>out. sfs' = sfs(sp \<mapsto> out) \<and> length out = 54 + sh * ((3 * sw + 3) div 4 * 4)))"
proof -
  have g: "row_size w = (3 * w + 3) div 4 * 4
      \<and> row_size w mod 4 = 0 \<and> 3 * w \<le> row_size w \<and> row_size w < 3 * w + 4"
    if "3 * w + 3 < 4294967296"
  proof -
    have e: "row_size w = (3 * w + 3) div 4 * 4" using that by (rule row_size_id)
    have "(3 * w + 3) div 4 * 4 \<le> 3 * w + 3" by simp
    moreover have "3 * w \<le> (3 * w + 3) div 4 * 4" using row_size_ge [OF that] e by simp
    ultimately show ?thesis using e by simp
  qed
  have ex: "row_size 1 = 4" "row_size 4 = 12" "row_size 5 = 16"
    by (simp_all add: row_size_def mul32_def add32_def)
  have D: "3 * dw + 3 < 4294967296 \<and> off + dh * ((3 * dw + 3) div 4 * 4) \<le> length content"
    if a: "fs p = Some content \<and> openf_load_bmp fs (Some p) = Some (Inr img)"
  proof -
    from a have "decodable content" by (blast intro: load_bmp_success_decodable)
    then have "3 * dw + 3 < 4294967296" "off + dh * row_size dw \<le> length content"
      by (simp_all add: decodable_def dw_def dh_def off_def)
    then show ?thesis by (simp add: row_size_id)
  qed
  have E: "\<exists>out. sfs' = sfs(sp \<mapsto> out) \<and> length out = 54 + sh * ((3 * sw + 3) div 4 * 4)"
    if a: "3 * sw + 3 < 4294967296
            \<and> openf_save_bmp sfs (Some sp) (Some simg) = Some (OPENF_OK, sfs')"
  proof -
    from a have sv: "openf_save_bmp sfs (Some sp) (Some simg) = Some (OPENF_OK, sfs')"
      and b: "3 * sw + 3 < 4294967296" by simp_all
    from save_bmp_result [OF sv] obtain rows where
      "sfs' = sfs(sp \<mapsto> save_headers sw sh @ rows)" "length rows = sh * row_size sw"
      unfolding sw_def sh_def by blast
    then show ?thesis
      using row_size_id [OF b] by (intro exI [of _ "save_headers sw sh @ rows"]) simp
  qed
  from g ex D E show ?thesis by blast
qed

text \<open>The theorem at width 7, at a decoded one-pixel file and at an encoded one-pixel
  image.\<close>

theorem row_stride_rounds_up_witness:
  "3 * 7 + 3 < (4294967296 :: nat) \<and> row_size 7 = 24 \<and> row_size 7 mod 4 = 0
     \<and> 3 * 7 \<le> row_size 7 \<and> row_size 7 < 3 * 7 + 4
     \<and> 54 + 1 * ((3 * 1 + 3) div 4 * 4)
          \<le> length (bmp_file (std_file_header 54) (std_info_header 1 1) [0x10, 0x20, 0x30, 0 :: byte])
     \<and> (\<exists>out. [''a.bmp'' \<mapsto> save_headers 1 1 @ [0x10, 0x20, 0x30, 0]] = Map.empty(''a.bmp'' \<mapsto> out)
           \<and> length out = 54 + 1 * ((3 * 1 + 3) div 4 * 4))"
  using row_stride_rounds_up
    [where w = 7
       and fs = "[''a.bmp'' \<mapsto> bmp_file (std_file_header 54) (std_info_header 1 1) [0x10, 0x20, 0x30, 0]]"
       and p = "''a.bmp''"
       and content = "bmp_file (std_file_header 54) (std_info_header 1 1) [0x10, 0x20, 0x30, 0]"
       and img = "\<lparr>width = 1, height = 1, pixels = Some [0x30, 0x20, 0x10]\<rparr>"
       and simg = "\<lparr>width = 1, height = 1, pixels = Some [0x30, 0x20, 0x10]\<rparr>"
       and sfs = Map.empty and sp = "''a.bmp''"
       and sfs' = "[''a.bmp'' \<mapsto> save_headers 1 1 @ [0x10, 0x20, 0x30, 0]]"]
    load_single_pixel save_single_pixel
  by (simp add: std_file_header_def std_info_header_def stored_height_def)

text \<open>The claim as stated, for every positive width, fails at width 1431655766, which is
  a positive \<^verbatim>\<open>int\<close>: \<open>width * 3 + 3\<close> wraps around in \<^verbatim>\<open>unsigned int\<close> and the
  stride is 4, not 4294967300.\<close>

theorem row_stride_wraps_counterexample:
  "row_size 1431655766 = 4 \<and> (3 * 1431655766 + 3) div 4 * 4 = (4294967300 :: nat)
   \<and> row_size 1431655766 \<noteq> (3 * 1431655766 + 3) div 4 * 4"
  by (simp add: row_size_def mul32_def add32_def)

subsection \<open>C5: short files and the signature\<close>

text \<open>
  Claim C5, amended. A file of fewer than 14 bytes makes \<^verbatim>\<open>openf_load_bmp\<close> fail with
  \<^verbatim>\<open>OPENF_ERR_READ_FAILED\<close>, whatever its first bytes are. A file of at least 14 bytes
  whose first two bytes are not \<^verbatim>\<open>BM\<close> (\<open>0x42\<close>, \<open>0x4D\<close>) makes it fail with
  \<^verbatim>\<open>OPENF_ERR_INVALID_FORMAT\<close>.
\<close>

theorem short_file_or_bad_signature_rejected:
  assumes "fs p = Some content"
  shows "(length content < 14
            \<longrightarrow> openf_load_bmp fs (Some p) = Some (Inl OPENF_ERR_READ_FAILED))
       \<and> (14 \<le> length content \<and> (content ! 0 \<noteq> 0x42 \<or> content ! 1 \<noteq> 0x4D)
            \<longrightarrow> openf_load_bmp fs (Some p) = Some (Inl OPENF_ERR_INVALID_FORMAT))"
proof (intro conjI impI)
  assume "length content < 14"
  with assms show "openf_load_bmp fs (Some p) = Some (Inl OPENF_ERR_READ_FAILED)"
    by (rule load_bmp_short_file)
next
  assume a: "14 \<le> length content \<and> (content ! 0 \<noteq> 0x42 \<or> content ! 1 \<noteq> 0x4D)"
  then have "bfType (file_header_of content) \<noteq> 0x4D42"
    by (simp add: signature_bytes)
  with assms a show "openf_load_bmp fs (Some p) = Some (Inl OPENF_ERR_INVALID_FORMAT)"
    by (intro load_bmp_bad_signature) simp_all
qed

text \<open>The theorem at a file of four bytes and at a file of fourteen bytes that starts
  with \<^verbatim>\<open>BN\<close>.\<close>

theorem short_file_or_bad_signature_rejected_witness:
  "openf_load_bmp [''a.bmp'' \<mapsto> [0x42, 0x4D, 0, 0]] (Some ''a.bmp'')
      = Some (Inl OPENF_ERR_READ_FAILED)
   \<and> openf_load_bmp [''a.bmp'' \<mapsto> [0x42, 0x4E, 0, 0, 0, 0, 0, 0, 0, 0, 0, 0, 0, 0]] (Some ''a.bmp'')
      = Some (Inl OPENF_ERR_INVALID_FORMAT)"
  using short_file_or_bad_signature_rejected
          [of "[''a.bmp'' \<mapsto> [0x42, 0x4D, 0, 0]]" "''a.bmp''" "[0x42, 0x4D, 0, 0]"]
        short_file_or_bad_signature_rejected
          [of "[''a.bmp'' \<mapsto> [0x42, 0x4E, 0, 0, 0, 0, 0, 0, 0, 0, 0, 0, 0, 0]]" "''a.bmp''"
              "[0x42, 0x4E, 0, 0, 0, 0, 0, 0, 0, 0, 0, 0, 0, 0]"]
  by simp

text \<open>The claim as stated fails for a file of four bytes: the error is
  \<^verbatim>\<open>OPENF_ERR_READ_FAILED\<close>, not \<^verbatim>\<open>OPENF_ERR_INVALID_FORMAT\<close>.\<close>

theorem short_file_counterexample:
  "length [0x42, 0x4D, 0, 0 :: byte] < 14
   \<and> openf_load_bmp [''a.bmp'' \<mapsto> [0x42, 0x4D, 0, 0]] (Some ''a.bmp'')
        = Some (Inl OPENF_ERR_READ_FAILED)
   \<and> openf_load_bmp [''a.bmp'' \<mapsto> [0x42, 0x4D, 0, 0]] (Some ''a.bmp'')
        \<noteq> Some (Inl OPENF_ERR_INVALID_FORMAT)"
  by (simp add: openf_load_bmp_def fread_def Let_def)

subsection \<open>C6: unsupported pixel formats\<close>

text \<open>
  Claim C6. For every file whose two headers can be read and whose signature is
  \<^verbatim>\<open>BM\<close>, a bit count other than 24 or a compression other than 0 makes
  \<^verbatim>\<open>openf_load_bmp\<close> fail with \<^verbatim>\<open>OPENF_ERR_UNSUPPORTED\<close>. Nothing is assumed of the
  width and the height: the check comes before their validation, so the error is
  \<^verbatim>\<open>OPENF_ERR_UNSUPPORTED\<close> also when the width or the height is invalid.
\<close>

theorem unsupported_format_rejected:
  assumes "fs p = Some content" and "54 \<le> length content"
    and "bfType (file_header_of content) = 0x4D42"
    and "biBitCount (info_header_of content) \<noteq> 24
         \<or> biCompression (info_header_of content) \<noteq> 0"
  shows "openf_load_bmp fs (Some p) = Some (Inl OPENF_ERR_UNSUPPORTED)"
  using assms by (rule load_bmp_unsupported)

text \<open>The theorem at two files of width 0 and height 0, one with bit count 8 and one
  with compression 1.\<close>

theorem unsupported_format_rejected_witness:
  "openf_load_bmp
     [''a.bmp'' \<mapsto> bmp_file (std_file_header 54) ((std_info_header 0 0)\<lparr>biBitCount := 8\<rparr>) []]
     (Some ''a.bmp'') = Some (Inl OPENF_ERR_UNSUPPORTED)
   \<and> openf_load_bmp
     [''a.bmp'' \<mapsto> bmp_file (std_file_header 54) ((std_info_header 0 0)\<lparr>biCompression := 1\<rparr>) []]
     (Some ''a.bmp'') = Some (Inl OPENF_ERR_UNSUPPORTED)"
  using unsupported_format_rejected
      [of "[''a.bmp'' \<mapsto> bmp_file (std_file_header 54) ((std_info_header 0 0)\<lparr>biBitCount := 8\<rparr>) []]"
          "''a.bmp''"
          "bmp_file (std_file_header 54) ((std_info_header 0 0)\<lparr>biBitCount := 8\<rparr>) []"]
    unsupported_format_rejected
      [of "[''a.bmp'' \<mapsto> bmp_file (std_file_header 54) ((std_info_header 0 0)\<lparr>biCompression := 1\<rparr>) []]"
          "''a.bmp''"
          "bmp_file (std_file_header 54) ((std_info_header 0 0)\<lparr>biCompression := 1\<rparr>) []"]
  by (simp add: std_file_header_def std_info_header_def)

subsection \<open>C7: validation of the dimensions\<close>

text \<open>
  Claim C7. For every file that passes the signature, bit count and compression checks,
  \<^verbatim>\<open>openf_load_bmp\<close> fails with \<^verbatim>\<open>OPENF_ERR_INVALID_FORMAT\<close> exactly when the stored
  width is at most 0 or the stored height is 0. A negative stored height is accepted:
  every image the decoder returns has the stored width and the absolute value of the
  stored height, and a decodable file with a negative height is decoded with that
  height and with its rows in storage order, first stored row first.
\<close>

theorem dimensions_validated:
  fixes content :: "byte list"
  defines "ih \<equiv> info_header_of content"
  defines "w \<equiv> unat (biWidth ih)" and "h \<equiv> stored_height ih"
  defines "off \<equiv> unat (bfOffBits (file_header_of content))"
  assumes "fs p = Some content" and "54 \<le> length content"
    and "bfType (file_header_of content) = 0x4D42"
    and "biBitCount ih = 24" and "biCompression ih = 0"
  shows "(openf_load_bmp fs (Some p) = Some (Inl OPENF_ERR_INVALID_FORMAT)
            \<longleftrightarrow> sint (biWidth ih) \<le> 0 \<or> biHeight ih = 0)
       \<and> (\<forall>img. openf_load_bmp fs (Some p) = Some (Inr img)
            \<longrightarrow> width img = biWidth ih \<and> int (unat (height img)) = \<bar>sint (biHeight ih)\<bar>)
       \<and> (sint (biHeight ih) < 0 \<and> decodable content \<longrightarrow>
            (\<exists>pxs. openf_load_bmp fs (Some p)
                      = Some (Inr \<lparr>width = biWidth ih, height = - biHeight ih, pixels = Some pxs\<rparr>)
               \<and> h = nat \<bar>sint (biHeight ih)\<bar> \<and> length pxs = 3 * (h * w)
               \<and> (\<forall>i x c. i < h \<and> x < w \<and> c < 3
                     \<longrightarrow> pxs ! (3 * (i * w + x) + c)
                           = content ! (off + i * row_size w + 3 * x + 2 - c))))"
proof -
  have A: "openf_load_bmp fs (Some p) = Some (Inl OPENF_ERR_INVALID_FORMAT)
            \<longleftrightarrow> sint (biWidth ih) \<le> 0 \<or> biHeight ih = 0"
  proof
    assume r: "openf_load_bmp fs (Some p) = Some (Inl OPENF_ERR_INVALID_FORMAT)"
    show "sint (biWidth ih) \<le> 0 \<or> biHeight ih = 0"
    proof (rule ccontr)
      assume "\<not> (sint (biWidth ih) \<le> 0 \<or> biHeight ih = 0)"
      then have "accepted_headers content"
        using assms(6-9) by (simp add: accepted_headers_def ih_def)
      from load_bmp_accepted_error [OF assms(5) this r] show False by simp
    qed
  next
    assume "sint (biWidth ih) \<le> 0 \<or> biHeight ih = 0"
    with assms(5-9) show "openf_load_bmp fs (Some p) = Some (Inl OPENF_ERR_INVALID_FORMAT)"
      unfolding ih_def by (intro load_bmp_bad_dimensions [of fs p content]) simp_all
  qed
  have B: "width img = biWidth ih \<and> int (unat (height img)) = \<bar>sint (biHeight ih)\<bar>"
    if r: "openf_load_bmp fs (Some p) = Some (Inr img)" for img
  proof -
  from load_bmp_decoded [OF assms(5) r] obtain pxs where
    img: "img = \<lparr>width = biWidth ih, height = word_of_nat h, pixels = Some pxs\<rparr>"
    unfolding ih_def h_def by blast
  have "unat (word_of_nat h :: 32 word) = h"
    by (simp add: h_def stored_height_def)
  then have "int (unat (height img)) = \<bar>sint (biHeight ih)\<bar>"
    unfolding img by (simp add: h_def stored_height_abs)
  with img show ?thesis
    by simp
  qed
  have C: "\<exists>pxs. openf_load_bmp fs (Some p)
                      = Some (Inr \<lparr>width = biWidth ih, height = - biHeight ih, pixels = Some pxs\<rparr>)
               \<and> h = nat \<bar>sint (biHeight ih)\<bar> \<and> length pxs = 3 * (h * w)
               \<and> (\<forall>i x c. i < h \<and> x < w \<and> c < 3
                     \<longrightarrow> pxs ! (3 * (i * w + x) + c)
                           = content ! (off + i * row_size w + 3 * x + 2 - c))"
    if a: "sint (biHeight ih) < 0 \<and> decodable content"
  proof -
  from a have neg: "sint (biHeight ih) < 0"
    and d: "accepted_headers content" "3 * w + 3 < 4294967296" "3 * (h * w) < 4294967296"
    "off + h * row_size w \<le> length content"
    by (simp_all add: decodable_def w_def h_def ih_def off_def)
  from load_bmp_decodes [of fs p content, OF assms(5) d [unfolded w_def h_def ih_def off_def]]
  obtain pxs where
    ld: "openf_load_bmp fs (Some p)
           = Some (Inr \<lparr>width = biWidth ih, height = word_of_nat h, pixels = Some pxs\<rparr>)"
    and len: "length pxs = 3 * (h * w)"
    and px: "\<And>i x c. i < h \<Longrightarrow> x < w \<Longrightarrow> c < 3
            \<Longrightarrow> pxs ! (3 * (target_row ih i * w + x) + c)
                = content ! (off + i * row_size w + 3 * x + 2 - c)"
    unfolding w_def h_def ih_def off_def by blast
  have hw: "word_of_nat h = - biHeight ih"
    using neg by (simp add: h_def stored_height_def)
  have "pxs ! (3 * (i * w + x) + c) = content ! (off + i * row_size w + 3 * x + 2 - c)"
    if "i < h" "x < w" "c < 3" for i x c
    using px [OF that] neg by (simp add: target_row_def)
  with ld len hw show ?thesis
    by (intro exI [of _ pxs]) (simp add: h_def stored_height_abs)
  qed
  from A B C show ?thesis by blast
qed

text \<open>The theorem at a file of width 0, at a file of height 0 and at a file of height
  \<open>-2\<close> with two stored rows.\<close>

theorem dimensions_validated_witness:
  "openf_load_bmp [''a.bmp'' \<mapsto> bmp_file (std_file_header 54) (std_info_header 0 1) []]
      (Some ''a.bmp'') = Some (Inl OPENF_ERR_INVALID_FORMAT)
   \<and> openf_load_bmp [''a.bmp'' \<mapsto> bmp_file (std_file_header 54) (std_info_header 1 0) []]
      (Some ''a.bmp'') = Some (Inl OPENF_ERR_INVALID_FORMAT)
   \<and> openf_load_bmp [''a.bmp'' \<mapsto> bmp_file (std_file_header 54) (std_info_header 1 (- 2))
                                    [1, 2, 3, 0, 4, 5, 6, 0]] (Some ''a.bmp'')
        \<noteq> Some (Inl OPENF_ERR_INVALID_FORMAT)
   \<and> (\<exists>pxs. openf_load_bmp [''a.bmp'' \<mapsto> bmp_file (std_file_header 54) (std_info_header 1 (- 2))
                                    [1, 2, 3, 0, 4, 5, 6, 0]] (Some ''a.bmp'')
               = Some (Inr \<lparr>width = 1, height = 2, pixels = Some pxs\<rparr>)
          \<and> length pxs = 6
          \<and> (\<forall>i x c. i < 2 \<and> x < 1 \<and> c < 3
                \<longrightarrow> pxs ! (3 * (i * 1 + x) + c)
                      = bmp_file (std_file_header 54) (std_info_header 1 (- 2))
                                    [1, 2, 3, 0, 4, 5, 6, 0] ! (54 + i * 4 + 3 * x + 2 - c)))"
  using dimensions_validated
      [of "[''a.bmp'' \<mapsto> bmp_file (std_file_header 54) (std_info_header 0 1) []]" "''a.bmp''"
          "bmp_file (std_file_header 54) (std_info_header 0 1) []"]
    dimensions_validated
      [of "[''a.bmp'' \<mapsto> bmp_file (std_file_header 54) (std_info_header 1 0) []]" "''a.bmp''"
          "bmp_file (std_file_header 54) (std_info_header 1 0) []"]
    dimensions_validated
      [of "[''a.bmp'' \<mapsto> bmp_file (std_file_header 54) (std_info_header 1 (- 2))
                                    [1, 2, 3, 0, 4, 5, 6, 0]]" "''a.bmp''"
          "bmp_file (std_file_header 54) (std_info_header 1 (- 2)) [1, 2, 3, 0, 4, 5, 6, 0]"]
  by (simp add: decodable_std) (simp add: std_file_header_def std_info_header_def stored_height_def)

subsection \<open>C8: the headers and the padding the encoder writes\<close>

text \<open>
  Claim C8, amended. For every image on which \<^verbatim>\<open>openf_save_bmp\<close> returns
  \<^verbatim>\<open>OPENF_OK\<close>, the file has \<open>14 + 40 + row_stride * height\<close> bytes and starts with
  \<^verbatim>\<open>BM\<close>; its file header declares the total size \<open>14 + 40 + row_stride * height\<close>
  reduced to the 32 bits of the field and the pixel-data offset 54; its info header has
  header size 40, the width of the image, planes 1, bit count 24, compression 0, the image
  data size \<open>row_stride * height\<close> reduced to 32 bits, and zero resolution and palette
  fields; the height field holds the 32 bits of the image height, never negated, and is
  positive as an \<^verbatim>\<open>int\<close> exactly when the height is between 1 and \<open>2 ^ 31 - 1\<close>;
  the padding tail of every row is zero.
\<close>

theorem save_bmp_headers:
  fixes img :: OpenF_Image
  defines "w \<equiv> unat (width img)" and "h \<equiv> unat (height img)"
  defines "rs \<equiv> row_size (unat (width img))"
  assumes "openf_save_bmp fs (Some p) (Some img) = Some (OPENF_OK, fs')"
  shows "\<exists>out. fs' = fs(p \<mapsto> out) \<and> length out = 14 + 40 + rs * h
     \<and> out ! 0 = 0x42 \<and> out ! 1 = 0x4D
     \<and> file_header_of out
         = \<lparr>bfType = 0x4D42, bfSize = word_of_nat (14 + 40 + rs * h),
            bfReserved1 = 0, bfReserved2 = 0, bfOffBits = 54\<rparr>
     \<and> info_header_of out
         = \<lparr>biSize = 40, biWidth = width img, biHeight = height img, biPlanes = 1,
            biBitCount = 24, biCompression = 0, biSizeImage = word_of_nat (rs * h),
            biXPelsPerMeter = 0, biYPelsPerMeter = 0, biClrUsed = 0, biClrImportant = 0\<rparr>
     \<and> unat (bfSize (file_header_of out)) = (14 + 40 + rs * h) mod 4294967296
     \<and> unat (biSizeImage (info_header_of out)) = (rs * h) mod 4294967296
     \<and> (0 < sint (biHeight (info_header_of out)) \<longleftrightarrow> 1 \<le> h \<and> h < 2147483648)
     \<and> (\<forall>k j. k < h \<and> 3 * w \<le> j \<and> j < rs \<longrightarrow> out ! (54 + k * rs + j) = 0)"
proof -
  from save_bmp_result [OF assms(4)] obtain rows where
    fs': "fs' = fs(p \<mapsto> save_headers w h @ rows)"
    and l: "length rows = h * rs"
    and z: "\<And>k j. k < h \<Longrightarrow> 3 * w \<le> j \<Longrightarrow> j < rs \<Longrightarrow> rows ! (k * rs + j) = 0"
    unfolding w_def h_def rs_def by blast
  define out where "out = save_headers w h @ rows"
  have len: "length out = 14 + 40 + rs * h"
    using l by (simp add: out_def mult.commute)
  have sig: "out ! 0 = 0x42 \<and> out ! 1 = 0x4D"
    using save_headers_signature [of w h] by (simp add: out_def nth_append)
  have fh: "file_header_of out = save_file_header w h"
    and ih: "info_header_of out = save_info_header w h"
    by (simp_all add: out_def)
  have fhv: "save_file_header w h
         = \<lparr>bfType = 0x4D42, bfSize = word_of_nat (14 + 40 + rs * h),
            bfReserved1 = 0, bfReserved2 = 0, bfOffBits = 54\<rparr>"
    by (simp add: save_file_header_def rs_def w_def)
  have ihv: "save_info_header w h
         = \<lparr>biSize = 40, biWidth = width img, biHeight = height img, biPlanes = 1,
            biBitCount = 24, biCompression = 0, biSizeImage = word_of_nat (rs * h),
            biXPelsPerMeter = 0, biYPelsPerMeter = 0, biClrUsed = 0, biClrImportant = 0\<rparr>"
    by (simp add: save_info_header_def rs_def w_def h_def)
  have s1: "unat (bfSize (file_header_of out)) = (14 + 40 + rs * h) mod 4294967296"
    unfolding fh fhv by (simp only: OpenF_BMPFileHeader.simps unat_u32_of_nat)
  have s2: "unat (biSizeImage (info_header_of out)) = (rs * h) mod 4294967296"
    unfolding ih ihv by (simp only: OpenF_BMPInfoHeader.simps unat_u32_of_nat)
  have hp: "0 < sint (biHeight (info_header_of out)) \<longleftrightarrow> 1 \<le> h \<and> h < 2147483648"
    unfolding ih ihv by (auto simp: sint_pos_iff h_def)
  have pad: "out ! (54 + k * rs + j) = 0" if "k < h" "3 * w \<le> j" "j < rs" for k j
    using z [OF that] by (simp add: out_def nth_append add.assoc)
  show ?thesis
    using fs' len sig s1 s2 hp pad unfolding fh ih fhv [symmetric] ihv [symmetric]
    by (intro exI [of _ out]) (simp add: out_def)
qed

text \<open>The theorem at the encoding of a one-pixel image.\<close>

theorem save_bmp_headers_witness:
  "\<exists>out. [''a.bmp'' \<mapsto> save_headers 1 1 @ [0x10, 0x20, 0x30, 0]] = Map.empty(''a.bmp'' \<mapsto> out)
     \<and> length out = 14 + 40 + 4 * 1
     \<and> out ! 0 = 0x42 \<and> out ! 1 = 0x4D
     \<and> file_header_of out
         = \<lparr>bfType = 0x4D42, bfSize = 58, bfReserved1 = 0, bfReserved2 = 0, bfOffBits = 54\<rparr>
     \<and> info_header_of out
         = \<lparr>biSize = 40, biWidth = 1, biHeight = 1, biPlanes = 1,
            biBitCount = 24, biCompression = 0, biSizeImage = 4,
            biXPelsPerMeter = 0, biYPelsPerMeter = 0, biClrUsed = 0, biClrImportant = 0\<rparr>
     \<and> unat (bfSize (file_header_of out)) = 58
     \<and> unat (biSizeImage (info_header_of out)) = 4
     \<and> 0 < sint (biHeight (info_header_of out))
     \<and> (\<forall>k j. k < 1 \<and> 3 \<le> j \<and> j < 4 \<longrightarrow> out ! (54 + k * 4 + j) = 0)"
  using save_bmp_headers [OF save_single_pixel] by simp

text \<open>The claim as stated fails for an image of height 0, which the encoder accepts: the
  height field is 0, not positive. For a height of \<open>2 ^ 31\<close> the field is negative, and
  for 65536 by 65536 pixels the size field is not \<open>14 + 40 + row_stride * height\<close>.\<close>

theorem save_bmp_headers_counterexample:
  "openf_save_bmp Map.empty (Some ''a.bmp'') (Some \<lparr>width = 1, height = 0, pixels = Some []\<rparr>)
     = Some (OPENF_OK, [''a.bmp'' \<mapsto> save_headers 1 0])
   \<and> \<not> 0 < sint (biHeight (info_header_of (save_headers 1 0)))
   \<and> sint (biHeight (save_info_header 1 2147483648)) < 0
   \<and> unat (bfSize (save_file_header 65536 65536)) \<noteq> 14 + 40 + row_size 65536 * 65536"
proof -
  have "row_size 65536 = 196608"
    by (simp add: row_size_def mul32_def add32_def)
  then have "unat (bfSize (save_file_header 65536 65536)) \<noteq> 14 + 40 + row_size 65536 * 65536"
    by (simp add: save_file_header_def unat_u32_of_nat)
  moreover have "sint (biHeight (save_info_header 1 2147483648)) < 0"
    by (simp add: save_info_header_def)
  moreover have "\<not> 0 < sint (biHeight (info_header_of (save_headers 1 0)))"
    using info_header_of_save [of 1 0 "[]"] by (simp add: save_info_header_def)
  ultimately show ?thesis
    using save_zero_height by simp
qed

subsection \<open>C9: the declared pixel-data offset\<close>

text \<open>
  Claim C9. \<^verbatim>\<open>openf_load_bmp\<close> reads the pixel rows at the offset \<open>off\<close> that the file
  header declares, whatever that offset is. When the file holds its \<open>h\<close> rows from
  byte \<open>off\<close> on, decoding succeeds and byte \<open>c\<close> of pixel \<open>x\<close> of the
  \<open>i\<close>-th stored row is the byte of the file at position
  \<open>off + i * row_size w + 3 * x + 2 - c\<close>. When the file ends before byte
  \<open>off + h * row_size w\<close>, decoding fails with \<^verbatim>\<open>OPENF_ERR_READ_FAILED\<close>, whatever
  it holds at byte 54. The bytes between the headers and the declared offset never
  matter: the outcome is that of the same two headers, with the offset field set to 54,
  directly followed by the bytes that the file holds from its declared offset on. The
  two bounds on \<open>w\<close> and \<open>h\<close> hold for every file that the decoder decodes (lemma
  \<open>load_bmp_succeeds_iff\<close>).
\<close>

theorem pixel_data_read_at_declared_offset:
  fixes content :: "byte list"
  defines "fh \<equiv> file_header_of content" and "ih \<equiv> info_header_of content"
  defines "w \<equiv> unat (biWidth ih)" and "h \<equiv> stored_height ih"
  defines "off \<equiv> unat (bfOffBits fh)"
  assumes "fs p = Some content" and "54 \<le> length content"
  shows "(accepted_headers content \<and> 3 * w + 3 < 4294967296 \<and> 3 * (h * w) < 4294967296
            \<and> off + h * row_size w \<le> length content \<longrightarrow>
            (\<exists>pxs. openf_load_bmp fs (Some p)
                      = Some (Inr \<lparr>width = biWidth ih, height = word_of_nat h, pixels = Some pxs\<rparr>)
               \<and> length pxs = 3 * (h * w)
               \<and> (\<forall>i x c. i < h \<and> x < w \<and> c < 3
                     \<longrightarrow> pxs ! (3 * (target_row ih i * w + x) + c)
                           = content ! (off + i * row_size w + 3 * x + 2 - c))))
       \<and> (accepted_headers content \<and> 3 * w + 3 < 4294967296 \<and> 3 * (h * w) < 4294967296
            \<and> length content < off + h * row_size w \<longrightarrow>
            openf_load_bmp fs (Some p) = Some (Inl OPENF_ERR_READ_FAILED))
       \<and> openf_load_bmp fs (Some p)
           = openf_load_bmp
               (fs(p \<mapsto> bmp_file (fh\<lparr>bfOffBits := 54\<rparr>) ih (drop off content))) (Some p)"
proof -
  have A: "\<exists>pxs. openf_load_bmp fs (Some p)
                      = Some (Inr \<lparr>width = biWidth ih, height = word_of_nat h, pixels = Some pxs\<rparr>)
               \<and> length pxs = 3 * (h * w)
               \<and> (\<forall>i x c. i < h \<and> x < w \<and> c < 3
                     \<longrightarrow> pxs ! (3 * (target_row ih i * w + x) + c)
                           = content ! (off + i * row_size w + 3 * x + 2 - c))"
    if "accepted_headers content \<and> 3 * w + 3 < 4294967296 \<and> 3 * (h * w) < 4294967296
            \<and> off + h * row_size w \<le> length content"
    using load_bmp_decodes [of fs p content] assms(6) that
    unfolding fh_def ih_def w_def h_def off_def by blast
  have B: "openf_load_bmp fs (Some p) = Some (Inl OPENF_ERR_READ_FAILED)"
    if "accepted_headers content \<and> 3 * w + 3 < 4294967296 \<and> 3 * (h * w) < 4294967296
            \<and> length content < off + h * row_size w"
    using load_bmp_truncated_rows [of fs p content] assms(6) that
    unfolding fh_def ih_def w_def h_def off_def by blast
  define content' where
    "content' = bmp_file (fh\<lparr>bfOffBits := 54\<rparr>) ih (drop off content)"
  have "openf_load_bmp (fs(p \<mapsto> content')) (Some p) = openf_load_bmp fs (Some p)"
    using assms(6,7)
    by (intro load_bmp_cong [of fs p content "fs(p \<mapsto> content')" p content'])
      (simp_all add: content'_def fh_def ih_def off_def)
  then have C: "openf_load_bmp fs (Some p)
           = openf_load_bmp
               (fs(p \<mapsto> bmp_file (fh\<lparr>bfOffBits := 54\<rparr>) ih (drop off content))) (Some p)"
    by (simp add: content'_def)
  from A B C show ?thesis by blast
qed

text \<open>The theorem at a file that declares the offset 60 and has the six bytes
  \<open>1, \<dots>, 6\<close> between the headers and its pixel row: the decoded pixel is made of the
  bytes 62, 61 and 60 of the file. The same headers directly followed by the row alone
  declare a row that the file does not hold, and decoding fails.\<close>

theorem pixel_data_read_at_declared_offset_witness:
  "(\<exists>pxs. openf_load_bmp [''a.bmp'' \<mapsto> bmp_file (std_file_header 60) (std_info_header 1 1)
                                    [1, 2, 3, 4, 5, 6, 0x10, 0x20, 0x30, 0]] (Some ''a.bmp'')
              = Some (Inr \<lparr>width = 1, height = 1, pixels = Some pxs\<rparr>)
         \<and> length pxs = 3
         \<and> pxs ! 0 = bmp_file (std_file_header 60) (std_info_header 1 1)
                        [1, 2, 3, 4, 5, 6, 0x10, 0x20, 0x30, 0] ! 62
         \<and> pxs ! 1 = bmp_file (std_file_header 60) (std_info_header 1 1)
                        [1, 2, 3, 4, 5, 6, 0x10, 0x20, 0x30, 0] ! 61
         \<and> pxs ! 2 = bmp_file (std_file_header 60) (std_info_header 1 1)
                        [1, 2, 3, 4, 5, 6, 0x10, 0x20, 0x30, 0] ! 60
         \<and> pxs = [0x30, 0x20, 0x10])
   \<and> openf_load_bmp [''a.bmp'' \<mapsto> bmp_file (std_file_header 60) (std_info_header 1 1)
                                    [0x10, 0x20, 0x30, 0]] (Some ''a.bmp'')
       = Some (Inl OPENF_ERR_READ_FAILED)
   \<and> openf_load_bmp [''a.bmp'' \<mapsto> bmp_file (std_file_header 60) (std_info_header 1 1)
                                    [1, 2, 3, 4, 5, 6, 0x10, 0x20, 0x30, 0]] (Some ''a.bmp'')
       = openf_load_bmp [''a.bmp'' \<mapsto> bmp_file (std_file_header 54) (std_info_header 1 1)
                                    [0x10, 0x20, 0x30, 0]] (Some ''a.bmp'')"
proof -
  let ?c = "bmp_file (std_file_header 60) (std_info_header 1 1)
              [1, 2, 3, 4, 5, 6, 0x10, 0x20, 0x30, 0]"
  let ?t = "bmp_file (std_file_header 60) (std_info_header 1 1) [0x10, 0x20, 0x30, 0]"
  have f: "stored_height (std_info_header 1 1) = 1" "biWidth (std_info_header 1 1) = 1"
    "bfOffBits (std_file_header 60) = 60" "target_row (std_info_header 1 1) 0 = 0"
    "(std_file_header 60)\<lparr>bfOffBits := 54\<rparr> = std_file_header 54"
    by (simp_all add: std_info_header_def std_file_header_def stored_height_def target_row_def)
  have c: "[''a.bmp'' \<mapsto> ?c] ''a.bmp'' = Some ?c" "54 \<le> length ?c"
    and t: "[''a.bmp'' \<mapsto> ?t] ''a.bmp'' = Some ?t" "54 \<le> length ?t"
    by simp_all
  note C = pixel_data_read_at_declared_offset [of "[''a.bmp'' \<mapsto> ?c]" "''a.bmp''" ?c, OF c]
  note D = pixel_data_read_at_declared_offset [of "[''a.bmp'' \<mapsto> ?t]" "''a.bmp''" ?t, OF t]
  have T: "\<exists>pxs. openf_load_bmp [''a.bmp'' \<mapsto> ?c] (Some ''a.bmp'')
                      = Some (Inr \<lparr>width = 1, height = 1, pixels = Some pxs\<rparr>)
               \<and> length pxs = 3 \<and> (\<forall>c. c < 3 \<longrightarrow> pxs ! c = ?c ! (60 + 2 - c))"
    using C [THEN conjunct1] by (simp add: f)
  have eq: "openf_load_bmp [''a.bmp'' \<mapsto> ?c] (Some ''a.bmp'')
           = openf_load_bmp [''a.bmp'' \<mapsto> bmp_file (std_file_header 54) (std_info_header 1 1)
                                    [0x10, 0x20, 0x30, 0]] (Some ''a.bmp'')"
    using C [THEN conjunct2, THEN conjunct2] by (simp add: f drop_bmp_file_ge)
  have U: "openf_load_bmp [''a.bmp'' \<mapsto> ?t] (Some ''a.bmp'')
       = Some (Inl OPENF_ERR_READ_FAILED)"
    using D [THEN conjunct2, THEN conjunct1] by (simp add: f)
  from T obtain pxs where
    ld: "openf_load_bmp [''a.bmp'' \<mapsto> ?c] (Some ''a.bmp'')
           = Some (Inr \<lparr>width = 1, height = 1, pixels = Some pxs\<rparr>)"
    and l: "length pxs = 3"
    and v: "\<And>c. c < 3 \<Longrightarrow> pxs ! c = ?c ! (60 + 2 - c)"
    by blast
  have px: "pxs = [0x30, 0x20, 0x10]"
    using ld load_pixel_after_gap by simp
  have n: "pxs ! 0 = ?c ! 62" "pxs ! 1 = ?c ! 61" "pxs ! 2 = ?c ! 60"
    using v [of 0] v [of 1] v [of 2] by simp_all
  from ld l n px have E: "\<exists>pxs. openf_load_bmp [''a.bmp'' \<mapsto> ?c] (Some ''a.bmp'')
              = Some (Inr \<lparr>width = 1, height = 1, pixels = Some pxs\<rparr>)
         \<and> length pxs = 3 \<and> pxs ! 0 = ?c ! 62 \<and> pxs ! 1 = ?c ! 61 \<and> pxs ! 2 = ?c ! 60
         \<and> pxs = [0x30, 0x20, 0x10]"
    by blast
  from E U eq show ?thesis by (intro conjI)
qed

subsection \<open>C10: header fields the decoder never reads\<close>

text \<open>
  Claim C10, amended. \<^verbatim>\<open>openf_load_bmp\<close> never inspects the header size, the planes and
  the image data size of the info header. With any values \<open>s\<close>, \<open>pl\<close> and \<open>si\<close> in
  these three fields, decoding succeeds exactly when the file passes the signature, bit
  count, compression and dimension checks, holds \<open>height\<close> rows from the declared offset
  on, and has sizes \<open>3 * width + 3\<close> and \<open>3 * width * height\<close> below \<open>2 ^ 32\<close>
  (\<open>decodable\<close>, which mentions none of the three fields). When the pixel data starts at
  byte 54 or later, the three fields do not change the outcome at all.
\<close>

theorem uninspected_header_fields:
  fixes content :: "byte list" and s :: "32 word" and pl :: "16 word" and si :: "32 word"
  defines "patched \<equiv> bmp_file (file_header_of content)
              ((info_header_of content)\<lparr>biSize := s, biPlanes := pl, biSizeImage := si\<rparr>)
              (drop 54 content)"
  assumes "54 \<le> length content"
  shows "((\<exists>img. openf_load_bmp (fs(p \<mapsto> patched)) (Some p) = Some (Inr img))
            \<longleftrightarrow> decodable content)
       \<and> (54 \<le> unat (bfOffBits (file_header_of content)) \<longrightarrow>
            openf_load_bmp (fs(p \<mapsto> patched)) (Some p)
              = openf_load_bmp (fs(p \<mapsto> content)) (Some p))"
proof -
  have len: "length patched = length content"
    using assms(2) by (simp add: patched_def)
  have "decodable patched \<longleftrightarrow> decodable content"
    using len by (intro decodable_cong) (simp_all add: patched_def)
  moreover have "(\<exists>img. openf_load_bmp (fs(p \<mapsto> patched)) (Some p) = Some (Inr img))
                   \<longleftrightarrow> decodable patched"
    by (rule load_bmp_succeeds_iff) simp
  ultimately have A: "(\<exists>img. openf_load_bmp (fs(p \<mapsto> patched)) (Some p) = Some (Inr img))
            \<longleftrightarrow> decodable content"
    by simp
  have B: "openf_load_bmp (fs(p \<mapsto> patched)) (Some p)
              = openf_load_bmp (fs(p \<mapsto> content)) (Some p)"
    if off: "54 \<le> unat (bfOffBits (file_header_of content))"
  proof -
    have "drop (unat (bfOffBits (file_header_of content))) patched
            = drop (unat (bfOffBits (file_header_of content))) content"
      using off by (simp add: patched_def drop_bmp_file_ge)
    then show ?thesis
      using assms(2) len
      by (intro load_bmp_cong [of "fs(p \<mapsto> content)" p content "fs(p \<mapsto> patched)" p patched])
        (simp_all add: patched_def)
  qed
  from A B show ?thesis by blast
qed

text \<open>The theorem at a one-pixel file with header size 0, planes 7 and image data size
  12345: it decodes to the pixel.\<close>

theorem uninspected_header_fields_witness:
  "54 \<le> length (bmp_file (std_file_header 54) (std_info_header 1 1) [0x10, 0x20, 0x30, 0])
   \<and> decodable (bmp_file (std_file_header 54) (std_info_header 1 1) [0x10, 0x20, 0x30, 0])
   \<and> openf_load_bmp
        [''a.bmp'' \<mapsto> bmp_file (std_file_header 54)
            ((std_info_header 1 1)\<lparr>biSize := 0, biPlanes := 7, biSizeImage := 12345\<rparr>)
            [0x10, 0x20, 0x30, 0]] (Some ''a.bmp'')
      = Some (Inr \<lparr>width = 1, height = 1, pixels = Some [0x30, 0x20, 0x10]\<rparr>)"
  using uninspected_header_fields
      [where content = "bmp_file (std_file_header 54) (std_info_header 1 1) [0x10, 0x20, 0x30, 0]"
         and fs = Map.empty and p = "''a.bmp''" and s = 0 and pl = 7 and si = 12345]
    load_single_pixel
  by (simp add: decodable_std) (simp add: std_file_header_def std_info_header_def stored_height_def)

text \<open>The claim as stated, for every input that passes the checks and has enough pixel
  bytes, fails at a file of width 1431655766 and height 1 that holds the 4294967300 bytes
  of its row: the decoder computes the stride 4 and a buffer of 2 bytes, and writes
  outside that buffer.\<close>

theorem wrapped_sizes_counterexample:
  "accepted_headers (bmp_file (std_file_header 54) (std_info_header 1431655766 1)
                       (replicate 4294967300 0))
   \<and> 54 + 1 * ((3 * 1431655766 + 3) div 4 * 4)
        \<le> length (bmp_file (std_file_header 54) (std_info_header 1431655766 1)
                       (replicate 4294967300 0))
   \<and> openf_load_bmp
        [''a.bmp'' \<mapsto> bmp_file (std_file_header 54) (std_info_header 1431655766 1)
                       (replicate 4294967300 0)] (Some ''a.bmp'') = None"
proof -
  define c :: "byte list" where
    "c = bmp_file (std_file_header 54) (std_info_header 1431655766 1) (replicate 4294967300 0)"
  have acc: "accepted_headers c" by (simp add: c_def)
  have len: "54 + 1 * ((3 * 1431655766 + 3) div 4 * 4) \<le> length c" by (simp add: c_def)
  have rs: "row_size 1431655766 = 4" by (simp add: row_size_def mul32_def add32_def)
  have lp: "load_pixels 1431655766 0 row (replicate 2 None) 0 = None" for row
    by (subst load_pixels.simps) (simp add: mul32_def add32_def Let_def)
  have "\<not> sint (1 :: 32 word) < 0" by simp
  have rd: "fread 4 (c, 54) = (replicate 4 0, (c, 58))"
    by (simp add: c_def fread_bmp_file)
  have "load_rows 1431655766 1 4 False (c, 54) (replicate 2 None) 0 = None"
    by (subst load_rows.simps) (simp add: rd lp)
  then have "openf_load_bmp [''a.bmp'' \<mapsto> c] (Some ''a.bmp'') = None"
    unfolding load_bmp_accepted [of "[''a.bmp'' \<mapsto> c]" "''a.bmp''" c, simplified, OF acc]
    by (simp add: c_def std_file_header_def std_info_header_def stored_height_def rs mul32_def)
  with acc len show ?thesis unfolding c_def by simp
qed

end
